theory Spec2Isabelle
  imports Complex_Main
begin

section \<open>Gaussian process models of proteins: a shallow embedding of gpmodel.py\<close>

text \<open>
  The class \<^verbatim>\<open>GPModel\<close> of \<^verbatim>\<open>gpmodel.py\<close> is embedded as a record of its attributes
  and one HOL function per method. Conventions:
  \<^item> numpy's float64 numbers are idealised as \<^typ>\<open>real\<close>: arithmetic is exact, and there
    is no NaN or infinity. Where the source can produce one of them (a division by
    zero, the square root of a negative number) the place says how it is modelled;
  \<^item> a one-dimensional array, a row matrix and a column matrix are all a \<^typ>\<open>real list\<close>;
    a two-dimensional array is the list of its rows;
  \<^item> a raised exception is the \<open>Inl\<close> of a result, and a method that changes the kernel
    before raising returns the changed kernel next to the result;
  \<^item> an attribute is an \<^typ>\<open>'a option\<close>: \<open>None\<close> is an attribute that is not set (reading
    it raises \<^verbatim>\<open>AttributeError\<close>) or that holds Python's \<^verbatim>\<open>None\<close>;
  \<^item> a Python name with a leading underscore, which Isabelle does not allow, is written
    with the prefix \<open>u_\<close>: \<^verbatim>\<open>_predict\<close> is \<open>u_predict\<close>, \<^verbatim>\<open>_Ky\<close> is \<open>u_Ky\<close>;
  \<^item> the kernel, the mean function, and the numerical routines of scipy and sklearn
    whose results no statement here depends on, are parameters (the record \<open>externals\<close>).
\<close>

subsection \<open>Errors\<close>

datatype error =
  AttributeError | ValueError | RuntimeError | LinAlgError | IndexError
  | KeyError | TypeError | NameError

definition ebind :: "error + 'a \<Rightarrow> ('a \<Rightarrow> error + 'b) \<Rightarrow> error + 'b" where
  "ebind r f = (case r of Inl e \<Rightarrow> Inl e | Inr v \<Rightarrow> f v)"

text \<open>Reading an attribute of \<^verbatim>\<open>self\<close>.\<close>

definition attr :: "'a option \<Rightarrow> error + 'a" where
  "attr a = (case a of None \<Rightarrow> Inl AttributeError | Some v \<Rightarrow> Inr v)"

text \<open>A list comprehension whose body may raise: the first exception ends it.\<close>

fun emap :: "('a \<Rightarrow> error + 'b) \<Rightarrow> 'a list \<Rightarrow> error + 'b list" where
  "emap f [] = Inr []"
| "emap f (x # xs) = ebind (f x) (\<lambda>y. ebind (emap f xs) (\<lambda>ys. Inr (y # ys)))"

subsection \<open>Vectors and matrices\<close>

type_synonym vec = "real list"
type_synonym mat = "real list list"

definition dot :: "vec \<Rightarrow> vec \<Rightarrow> real" where
  "dot xs ys = sum_list (map2 (*) xs ys)"

text \<open>\<^verbatim>\<open>np.dot\<close> of a row and a column: the lengths must agree.\<close>

definition np_dot :: "vec \<Rightarrow> vec \<Rightarrow> error + real" where
  "np_dot xs ys = (if length xs = length ys then Inr (dot xs ys) else Inl ValueError)"

definition mat_vec :: "mat \<Rightarrow> vec \<Rightarrow> vec" where
  "mat_vec A x = map (\<lambda>r. dot r x) A"

definition is_square :: "mat \<Rightarrow> bool" where
  "is_square A = list_all (\<lambda>r. length r = length A) A"

definition transpose_mat :: "mat \<Rightarrow> mat" where
  "transpose_mat A =
     (case A of [] \<Rightarrow> [] | r # _ \<Rightarrow> map (\<lambda>j. map (\<lambda>row. row ! j) A) [0..<length r])"

fun lower_triangular_from :: "nat \<Rightarrow> mat \<Rightarrow> bool" where
  "lower_triangular_from i [] = True"
| "lower_triangular_from i (r # rs) =
     (list_all (\<lambda>x. x = 0) (drop (Suc i) r) \<and> lower_triangular_from (Suc i) rs)"

definition lower_triangular :: "mat \<Rightarrow> bool" where
  "lower_triangular A = lower_triangular_from 0 A"

text \<open>
  Forward substitution. \<open>forward_subst rs bs xs\<close> extends the solution \<open>xs\<close> found so
  far by one unknown for each remaining row: the row's entry on the diagonal is the one
  at position \<open>length xs\<close>.
\<close>

fun forward_subst :: "mat \<Rightarrow> vec \<Rightarrow> vec \<Rightarrow> vec" where
  "forward_subst [] bs xs = xs"
| "forward_subst (r # rs) [] xs = xs"
| "forward_subst (r # rs) (b # bs) xs =
     forward_subst rs bs (xs @ [(b - dot r xs) / (r ! length xs)])"

text \<open>
  \<^verbatim>\<open>np.linalg.lstsq(A, b)[0]\<close>, at the calls this program makes: \<open>A\<close> is a Cholesky
  factor (lower triangular) or the transpose of one (upper triangular), with a positive
  diagonal. The least-squares solution of such a system is its only solution; it is
  computed by forward substitution, for an upper triangular matrix on the system with
  rows and columns reversed. numpy raises \<^verbatim>\<open>LinAlgError\<close> when \<open>A\<close> and \<open>b\<close> do not
  have the same number of rows. (A matrix that is not triangular, or has a zero on its
  diagonal, is outside this model.)
\<close>

definition lstsq :: "mat \<Rightarrow> vec \<Rightarrow> error + vec" where
  "lstsq A b =
     (if length b \<noteq> length A then Inl LinAlgError
      else if lower_triangular A then Inr (forward_subst A b [])
      else Inr (rev (forward_subst (rev (map rev A)) (rev b) [])))"

text \<open>
  \<^verbatim>\<open>np.linalg.cholesky\<close>: the lower triangular \<open>L\<close> with a positive diagonal and
  \<open>L L\<^sup>T = A\<close>, row by row (the part of row \<open>i\<close> left of the diagonal solves a triangular
  system against the rows above it). Only the lower triangle of \<open>A\<close> is read. numpy
  raises \<^verbatim>\<open>LinAlgError\<close> when \<open>A\<close> is not square or a pivot is not positive.
\<close>

fun cholesky_rows :: "mat \<Rightarrow> mat \<Rightarrow> error + mat" where
  "cholesky_rows [] Ls = Inr Ls"
| "cholesky_rows (a # as) Ls =
     (let x = forward_subst Ls (take (length Ls) a) [];
          d = a ! length Ls - dot x x
      in if d \<le> 0 then Inl LinAlgError
         else cholesky_rows as (Ls @ [x @ [sqrt d]]))"

definition pad :: "nat \<Rightarrow> vec \<Rightarrow> vec" where
  "pad n r = r @ replicate (n - length r) 0"

definition cholesky :: "mat \<Rightarrow> error + mat" where
  "cholesky A =
     (if \<not> is_square A then Inl LinAlgError
      else case cholesky_rows A [] of
             Inl e \<Rightarrow> Inl e
           | Inr Ls \<Rightarrow> Inr (map (pad (length A)) Ls))"

text \<open>
  Products and sums of arrays. numpy raises \<^verbatim>\<open>ValueError\<close> when the shapes do not fit
  (its broadcasting of an array with a single row or column is not modelled).
\<close>

definition mat_mul :: "mat \<Rightarrow> mat \<Rightarrow> mat" where
  "mat_mul A B = map (\<lambda>r. map (\<lambda>c. dot r c) (transpose_mat B)) A"

definition np_dot_mv :: "mat \<Rightarrow> vec \<Rightarrow> error + vec" where
  "np_dot_mv A x =
     (if list_all (\<lambda>r. length r = length x) A then Inr (mat_vec A x) else Inl ValueError)"

definition np_dot_mm :: "mat \<Rightarrow> mat \<Rightarrow> error + mat" where
  "np_dot_mm A B =
     (if list_all (\<lambda>r. length r = length B) A \<and> list_all (\<lambda>r. length r = length (hd B)) B
      then Inr (mat_mul A B) else Inl ValueError)"

definition vec_add :: "vec \<Rightarrow> vec \<Rightarrow> error + vec" where
  "vec_add x y = (if length x = length y then Inr (map2 (+) x y) else Inl ValueError)"

definition vec_sub :: "vec \<Rightarrow> vec \<Rightarrow> error + vec" where
  "vec_sub x y = (if length x = length y then Inr (map2 (-) x y) else Inl ValueError)"

definition mat_add :: "mat \<Rightarrow> mat \<Rightarrow> error + mat" where
  "mat_add A B =
     (if map length A = map length B then Inr (map2 (map2 (+)) A B) else Inl ValueError)"

text \<open>\<^verbatim>\<open>np.diag\<close> of a vector and of a matrix, and \<^verbatim>\<open>np.identity(n) * c\<close>.\<close>

definition diag_mat :: "vec \<Rightarrow> mat" where
  "diag_mat xs =
     map (\<lambda>i. map (\<lambda>j. if i = j then xs ! i else 0) [0..<length xs]) [0..<length xs]"

definition diag_of :: "mat \<Rightarrow> vec" where
  "diag_of A = map (\<lambda>i. A ! i ! i) [0..<min (length A) (length (hd A))]"

definition scaled_identity :: "nat \<Rightarrow> real \<Rightarrow> mat" where
  "scaled_identity n c = diag_mat (replicate n c)"

text \<open>
  \<^verbatim>\<open>scipy.linalg.sqrtm\<close>, at the calls this program makes: the argument is the diagonal
  matrix \<^verbatim>\<open>_hess\<close> returns, with entries in the interval from 0 to 1/4, and its
  principal square root is the matrix of the square roots of its entries.
\<close>

definition sqrtm :: "mat \<Rightarrow> mat" where
  "sqrtm W = map (map sqrt) W"

subsection \<open>The model and its collaborators\<close>

type_synonym ident = string
type_synonym seqs = "(ident \<times> string) list"
type_synonym series = "(ident \<times> real) list"

text \<open>The named tuple \<^verbatim>\<open>Hypers\<close>: the field names with their values, in order.\<close>

type_synonym hypers = "(string \<times> real) list"

text \<open>\<^verbatim>\<open>self.objective\<close> is one of the bound methods \<^verbatim>\<open>_log_ML\<close> and \<^verbatim>\<open>_LOO_log_p\<close>.\<close>

datatype objective = Log_ML | LOO_log_p

record ('k, 'mf) GPModel =
  X_seqs :: "seqs option"
  Y :: "series option"
  variances :: "series option"
  normed_Y :: "series option"
  mean :: "real option"
  std :: "real option"
  kern :: 'k
  mean_func :: 'mf
  hypers :: "hypers option"
  regr :: "bool option"
  guesses :: "vec option"
  objective :: objective
  u_K :: "mat option"
  u_Ky :: "mat option"
  u_L :: "mat option"
  u_alpha :: "vec option"
  attr_ML :: "real option"
  log_p :: "real option"
  u_ell :: "nat option"
  u_f_hat :: "series option"
  u_W :: "mat option"
  u_W_root :: "mat option"
  u_grad :: "vec option"

text \<open>
  What the class takes from outside: the kernel (a state \<open>'k\<close> with the operations of
  the kernel contract), the mean function (a state \<open>'mf\<close>), and library routines.
\<close>

record ('k, 'mf) externals =
  kern_hypers :: "'k \<Rightarrow> string list"
  set_X :: "seqs \<Rightarrow> 'k \<Rightarrow> 'k"
  make_K :: "'k \<Rightarrow> vec \<Rightarrow> mat"
  calc_kernel :: "'k \<Rightarrow> ident \<Rightarrow> ident \<Rightarrow> vec \<Rightarrow> real"
  train :: "seqs \<Rightarrow> 'k \<Rightarrow> 'k"
  delete :: "seqs \<Rightarrow> 'k \<Rightarrow> 'k"
  GPMean :: 'mf
  mean_fit :: "seqs \<Rightarrow> series \<Rightarrow> 'mf \<Rightarrow> 'mf"
  means :: "'mf \<Rightarrow> vec"
  mean_of :: "'mf \<Rightarrow> seqs \<Rightarrow> vec"
  minimize :: "(vec \<Rightarrow> error + real) \<Rightarrow> vec \<Rightarrow> error + vec"
  linalg_inv :: "mat \<Rightarrow> error + mat"
  integrate_quad :: "(real \<Rightarrow> real) \<Rightarrow> real \<Rightarrow> real \<Rightarrow> real"
  roc_auc_score :: "vec \<Rightarrow> mat \<Rightarrow> error + real"
  kendalltau :: "vec \<Rightarrow> vec \<Rightarrow> real"
  r2_score :: "vec \<Rightarrow> vec \<Rightarrow> real"
  corrcoef :: "vec \<Rightarrow> vec \<Rightarrow> real"
  dict_order :: "string list \<Rightarrow> string list"

subsection \<open>Prediction for one sequence\<close>

text \<open>
  \<^verbatim>\<open>_predict\<close> returns a pair for a regression model and a triple for a
  classification model.
\<close>

datatype prediction = Regression real real | Classification real real real

definition unnormalize :: "('k, 'mf) GPModel \<Rightarrow> real \<Rightarrow> error + real" where
  "unnormalize self normed =
     ebind (attr (std self)) (\<lambda>s.
     ebind (attr (mean self)) (\<lambda>m. Inr (normed * s + m)))"

definition unnormalize_array :: "('k, 'mf) GPModel \<Rightarrow> vec \<Rightarrow> error + vec" where
  "unnormalize_array self normed =
     ebind (attr (std self)) (\<lambda>s.
     ebind (attr (mean self)) (\<lambda>m. Inr (map (\<lambda>x. x * s + m) normed)))"

text \<open>
  The integrand of the class probability. The \<^verbatim>\<open>try\<close> blocks of the source catch
  nothing: numpy returns an infinity or a NaN there, with a warning.
\<close>

definition u_p_integral :: "real \<Rightarrow> real \<Rightarrow> real \<Rightarrow> real" where
  "u_p_integral z mu variance =
     (let first = 1 / (1 + exp (- z));
          second = 1 / sqrt (2 * pi * variance);
          third = exp (- (z - mu)\<^sup>2 / (2 * variance))
      in first * second * third)"

definition u_predict ::
  "('k, 'mf) externals \<Rightarrow> ('k, 'mf) GPModel \<Rightarrow> vec \<Rightarrow> real \<Rightarrow> vec option \<Rightarrow> mat option
     \<Rightarrow> bool \<Rightarrow> error + prediction" where
  "u_predict ext self k k_star alpha L unnorm =
     ebind (attr (regr self)) (\<lambda>r.
       if r then
         ebind (case alpha of None \<Rightarrow> attr (u_alpha self) | Some a \<Rightarrow> Inr a) (\<lambda>alpha.
         ebind (case L of None \<Rightarrow> attr (u_L self) | Some l \<Rightarrow> Inr l) (\<lambda>L.
         ebind (np_dot k alpha) (\<lambda>E.
         ebind (lstsq L k) (\<lambda>v.
           let var = k_star - dot v v in
           if unnorm then
             ebind (unnormalize self E) (\<lambda>E.
             ebind (attr (std self)) (\<lambda>s. Inr (Regression E (var * s\<^sup>2))))
           else Inr (Regression E var)))))
       else
         ebind (attr (u_grad self)) (\<lambda>grad.
         ebind (np_dot k grad) (\<lambda>f_bar.
         ebind (attr (u_L self)) (\<lambda>L.
         ebind (attr (u_W_root self)) (\<lambda>W_root.
         ebind (np_dot_mv W_root k) (\<lambda>Wk.
         ebind (lstsq L Wk) (\<lambda>v.
           let var = k_star - dot v v;
               i = 10;
               pi_star = integrate_quad ext (\<lambda>z. u_p_integral z f_bar var)
                           (- i * var + f_bar) (f_bar + i * var)
           in Inr (Classification pi_star f_bar var))))))))"

subsection \<open>Construction and parameters\<close>








text \<open>
  \<^verbatim>\<open>namedtuple('Hypers', names)._make(values)\<close>: the names must be distinct
  (\<^verbatim>\<open>ValueError\<close>) and as many as the values (\<^verbatim>\<open>TypeError\<close>).
\<close>

definition namedtuple_make :: "string list \<Rightarrow> vec \<Rightarrow> error + hypers" where
  "namedtuple_make names vals =
     (if \<not> distinct names then Inl ValueError
      else if length vals \<noteq> length names then Inl TypeError
      else Inr (zip names vals))"



text \<open>
  \<^verbatim>\<open>GPModel(kern, **kwargs)\<close>. \<open>new_model\<close> is the object after the assignments of
  \<^verbatim>\<open>__init__\<close> and before \<^verbatim>\<open>_set_params\<close>: the kernel, the default mean function, no
  guesses and no variances (the objective, which is not set yet, is set by
  \<^verbatim>\<open>_set_params\<close> in every case).
\<close>

definition new_model :: "('k, 'mf) externals \<Rightarrow> 'k \<Rightarrow> ('k, 'mf) GPModel" where
  "new_model ext kern0 =
     \<lparr>X_seqs = None, Y = None, variances = None, normed_Y = None, mean = None,
      std = None, kern = kern0, mean_func = GPMean ext, hypers = None,
      regr = None, guesses = None, objective = Log_ML, u_K = None, u_Ky = None,
      u_L = None, u_alpha = None, attr_ML = None, log_p = None, u_ell = None,
      u_f_hat = None, u_W = None, u_W_root = None, u_grad = None\<rparr>"


subsection \<open>Persistence\<close>



subsection \<open>Normalisation\<close>


subsection \<open>The logistic likelihood and the Laplace approximation\<close>

definition py_int :: "real \<Rightarrow> int" where
  "py_int y = (if 0 \<le> y then \<lfloor>y\<rfloor> else \<lceil>y\<rceil>)"

text \<open>\<^verbatim>\<open>_logistic_likelihood\<close> with a number, and with an array, for \<^verbatim>\<open>Y\<close>.\<close>

definition u_logistic_likelihood :: "real \<Rightarrow> vec \<Rightarrow> error + vec" where
  "u_logistic_likelihood y F =
     (if py_int y \<noteq> 1 \<and> py_int y \<noteq> - 1 then Inl RuntimeError
      else Inr (map (\<lambda>f. 1 / (1 + exp (- y * f))) F))"

definition u_logistic_likelihood_array :: "vec \<Rightarrow> vec \<Rightarrow> error + vec" where
  "u_logistic_likelihood_array Ys F =
     (if \<not> list_all (\<lambda>y. y = 1 \<or> y = - 1) Ys then Inl RuntimeError
      else if length Ys \<noteq> length F then Inl ValueError
      else Inr (map2 (\<lambda>y f. 1 / (1 + exp (- y * f))) Ys F))"

definition u_log_logistic_likelihood :: "vec \<Rightarrow> vec \<Rightarrow> error + real" where
  "u_log_logistic_likelihood Ys F =
     (if length Ys \<noteq> length F then Inl RuntimeError
      else ebind (u_logistic_likelihood_array Ys F) (\<lambda>ps. Inr (sum_list (map ln ps))))"

definition u_grad_log_logistic_likelihood :: "vec \<Rightarrow> vec \<Rightarrow> error + mat" where
  "u_grad_log_logistic_likelihood Ys F =
     ebind (u_logistic_likelihood 1 F) (\<lambda>ps.
     ebind (vec_sub (map (\<lambda>y. (y + 1) / 2) Ys) ps) (\<lambda>glll. Inr (diag_mat glll)))"

definition u_hess :: "vec \<Rightarrow> error + mat" where
  "u_hess F =
     ebind (u_logistic_likelihood 1 F) (\<lambda>ps. Inr (diag_mat (map (\<lambda>p. p * (1 - p)) ps)))"

text \<open>
  The lines that \<^verbatim>\<open>_find_F\<close> and \<^verbatim>\<open>_logq\<close> share: from the latent values \<open>F\<close> to the
  vector \<open>a\<close> of Algorithm 3.1, with the Cholesky factor used on the way. \<open>Ys\<close> is the
  reading of the values of \<^verbatim>\<open>self.Y\<close>, which happens at the gradient.
\<close>

definition newton_a :: "error + vec \<Rightarrow> mat \<Rightarrow> nat \<Rightarrow> vec \<Rightarrow> error + vec \<times> mat" where
  "newton_a Ys K ell F =
     ebind (u_hess F) (\<lambda>W.
     let W_root = sqrtm W in
     ebind (np_dot_mm W_root K) (\<lambda>WK.
     ebind (np_dot_mm WK W_root) (\<lambda>trip_dot.
     ebind (mat_add (scaled_identity ell 1) trip_dot) (\<lambda>B.
     ebind (cholesky B) (\<lambda>L.
     ebind (np_dot_mv W F) (\<lambda>b.
     ebind (ebind Ys (\<lambda>Ys. u_grad_log_logistic_likelihood Ys F)) (\<lambda>G.
     ebind (vec_add b (diag_of G)) (\<lambda>b.
     ebind (np_dot_mv WK b) (\<lambda>WKb.
     ebind (lstsq L WKb) (\<lambda>trip_dot_lstsq.
     ebind (lstsq (transpose_mat L) trip_dot_lstsq) (\<lambda>z.
     ebind (np_dot_mv W_root z) (\<lambda>Wz.
     ebind (vec_sub b Wz) (\<lambda>a. Inr (a, L))))))))))))))"

text \<open>One evaluation of the loop of \<^verbatim>\<open>_find_F\<close>: the candidate \<^verbatim>\<open>f_new\<close>.\<close>

definition find_F_step :: "error + vec \<Rightarrow> mat \<Rightarrow> nat \<Rightarrow> vec \<Rightarrow> error + vec" where
  "find_F_step Ys K ell f_hat =
     ebind (newton_a Ys K ell f_hat) (\<lambda>(a, L). np_dot_mv K a)"

text \<open>
  The convergence test \<^verbatim>\<open>sq_error / np.sum(f_new) < threshold\<close>. When the sum is zero
  numpy divides to NaN or to an infinity, and the comparison is false (a sum that is a
  negative zero, where it would be true for a positive error, is not modelled).
\<close>

definition below_threshold :: "real \<Rightarrow> vec \<Rightarrow> vec \<Rightarrow> bool" where
  "below_threshold threshold f_hat f_new =
     (let sq_error = sum_list (map (\<lambda>d. d\<^sup>2) (map2 (-) f_hat f_new))
      in sum_list f_new \<noteq> 0 \<and> sq_error / sum_list f_new < threshold)"

text \<open>
  The loop \<^verbatim>\<open>for i in range(evals)\<close>, on the evaluations that are left, the current
  \<^verbatim>\<open>f_hat\<close> and the counter \<^verbatim>\<open>n_below\<close>.
\<close>

fun find_F_loop ::
  "(vec \<Rightarrow> error + vec) \<Rightarrow> real \<Rightarrow> nat \<Rightarrow> vec \<Rightarrow> nat \<Rightarrow> error + vec" where
  "find_F_loop step threshold 0 f_hat n_below = Inl RuntimeError"
| "find_F_loop step threshold (Suc evals) f_hat n_below =
     ebind (step f_hat) (\<lambda>f_new.
       let n_below = (if below_threshold threshold f_hat f_new then n_below + 1 else 0)
       in if n_below > 9 then Inr f_new
          else find_F_loop step threshold evals f_new n_below)"

text \<open>
  To state what the loop does: \<open>iterates step n f\<close> is the value of \<^verbatim>\<open>f_hat\<close> after
  \<open>n\<close> evaluations that start at \<open>f\<close>, and \<open>criterion_held step threshold f j\<close> says that
  evaluation \<open>j\<close> (counted from 0) passed the convergence test.
\<close>

fun iterates :: "(vec \<Rightarrow> error + vec) \<Rightarrow> nat \<Rightarrow> vec \<Rightarrow> error + vec" where
  "iterates step 0 f = Inr f"
| "iterates step (Suc n) f = ebind (step f) (iterates step n)"

definition criterion_held :: "(vec \<Rightarrow> error + vec) \<Rightarrow> real \<Rightarrow> vec \<Rightarrow> nat \<Rightarrow> bool" where
  "criterion_held step threshold f j =
     (case iterates step j f of
        Inl e \<Rightarrow> False
      | Inr f_hat \<Rightarrow>
          (case step f_hat of
             Inl e \<Rightarrow> False
           | Inr f_new \<Rightarrow> below_threshold threshold f_hat f_new))"

text \<open>
  With the counter at \<open>c\<close>, the loop returns at evaluation \<open>n\<close> when the counter has
  then reached 10: the last ten evaluations passed the test, or all of them did and the
  counter started high enough.
\<close>

definition sustained :: "(vec \<Rightarrow> error + vec) \<Rightarrow> real \<Rightarrow> nat \<Rightarrow> vec \<Rightarrow> nat \<Rightarrow> bool" where
  "sustained step thr c f n \<longleftrightarrow>
     10 \<le> c + n + 1 \<and> (\<forall>j \<le> n. n < j + 10 \<longrightarrow> criterion_held step thr f j)"

text \<open>
  \<^verbatim>\<open>_find_F\<close>. A caller's guess is compared with the length of a name that is not
  defined, which raises \<^verbatim>\<open>NameError\<close>.
\<close>

definition u_find_F ::
  "('k, 'mf) externals \<Rightarrow> ('k, 'mf) GPModel \<Rightarrow> vec \<Rightarrow> vec option \<Rightarrow> real \<Rightarrow> nat
     \<Rightarrow> error + series" where
  "u_find_F ext self hs guess threshold evals =
     ebind (attr (Y self)) (\<lambda>Ys.
     let ell = length Ys in
     ebind (case guess of None \<Rightarrow> Inr (replicate ell 0) | Some g \<Rightarrow> Inl NameError) (\<lambda>f_hat.
     let K = make_K ext (kern self) hs in
     ebind (find_F_loop (find_F_step (Inr (map snd Ys)) K ell) threshold evals f_hat 0) (\<lambda>f_new.
     ebind (attr (X_seqs self)) (\<lambda>X.
       if length X = length f_new then Inr (zip (map fst X) f_new) else Inl ValueError))))"

definition u_logq ::
  "('k, 'mf) externals \<Rightarrow> ('k, 'mf) GPModel \<Rightarrow> series \<Rightarrow> vec \<Rightarrow> error + real" where
  "u_logq ext self F hs =
     ebind (attr (u_ell self)) (\<lambda>ell.
     let K = make_K ext (kern self) hs;
         F_mat = map snd F in
     ebind (newton_a (ebind (attr (Y self)) (\<lambda>Ys. Inr (map snd Ys))) K ell F_mat) (\<lambda>(a, L).
     ebind (np_dot a F_mat) (\<lambda>aF.
     ebind (attr (Y self)) (\<lambda>Ys.
     ebind (u_log_logistic_likelihood (map snd Ys) F_mat) (\<lambda>lll.
       Inr (0.5 * aF - lll + sum_list (map ln (diag_of L))))))))"

subsection \<open>Covariance matrices and the objectives\<close>

definition u_make_Ks ::
  "('k, 'mf) externals \<Rightarrow> ('k, 'mf) GPModel \<Rightarrow> vec \<Rightarrow> error + mat \<times> mat" where
  "u_make_Ks ext self hs =
     (if length hs = length (kern_hypers ext (kern self)) then
        (case variances self of
           None \<Rightarrow> Inl AttributeError
         | Some vs \<Rightarrow>
             let K = make_K ext (kern self) hs in
             ebind (mat_add K (diag_mat (map snd vs))) (\<lambda>Ky. Inr (K, Ky)))
      else if length hs = length (kern_hypers ext (kern self)) + 1 then
        (let K = make_K ext (kern self) (tl hs) in
         ebind (mat_add K (scaled_identity (length K) (hd hs))) (\<lambda>Ky. Inr (K, Ky)))
      else Inl AttributeError)"

text \<open>The two triangular solves that give the posterior weights.\<close>

definition solve_alpha :: "mat \<Rightarrow> vec \<Rightarrow> error + vec" where
  "solve_alpha L ys = ebind (lstsq L ys) (\<lambda>z. lstsq (transpose_mat L) z)"

definition u_log_ML ::
  "('k, 'mf) externals \<Rightarrow> ('k, 'mf) GPModel \<Rightarrow> vec \<Rightarrow> error + real" where
  "u_log_ML ext self hs =
     ebind (attr (regr self)) (\<lambda>r.
       if r then
         ebind (attr (normed_Y self)) (\<lambda>nY.
         let Ys = map snd nY in
         ebind (u_make_Ks ext self hs) (\<lambda>(K, Ky).
         ebind (cholesky Ky) (\<lambda>L.
         ebind (solve_alpha L Ys) (\<lambda>alpha.
         ebind (np_dot Ys alpha) (\<lambda>Ya.
           let first = 0.5 * Ya;
               second = sum_list (map ln (diag_of L));
               third = real (length K) / 2 * ln (2 * pi)
           in Inr (first + second + third))))))
       else
         ebind (u_find_F ext self hs None (1 / 10000) 1000) (\<lambda>f_hat.
           u_logq ext self f_hat hs))"

text \<open>
  \<^verbatim>\<open>LOO_res\<close>. The quotient \<^verbatim>\<open>np.dot(K_inv, Y) / K_inv\<close> is broadcast to a matrix, of
  which \<^verbatim>\<open>np.diag\<close> keeps the diagonal.
\<close>

definition LOO_res ::
  "('k, 'mf) externals \<Rightarrow> ('k, 'mf) GPModel \<Rightarrow> vec \<Rightarrow> bool \<Rightarrow> bool
     \<Rightarrow> error + (ident \<times> real \<times> real) list" where
  "LOO_res ext self hs add_mean unnorm =
     ebind (u_make_Ks ext self hs) (\<lambda>(K, Ky).
     ebind (linalg_inv ext Ky) (\<lambda>K_inv.
     ebind (attr (normed_Y self)) (\<lambda>nY.
     let Ys = map snd nY in
     ebind (np_dot_mv K_inv Ys) (\<lambda>KY.
     if length Ys \<noteq> length K_inv then Inl ValueError
     else
       let mus = diag_of (map2 (\<lambda>(y, q) row. map (\<lambda>c. y - q / c) row) (zip Ys KY) K_inv);
           vs = diag_of (map (map (\<lambda>c. 1 / c)) K_inv)
       in
       ebind (if add_mean \<or> unnorm then
                ebind (unnormalize_array self mus) (\<lambda>mus.
                ebind (attr (std self)) (\<lambda>s. Inr (mus, map (\<lambda>v. v * s\<^sup>2) vs)))
              else Inr (mus, vs)) (\<lambda>(mus, vs).
       ebind (if add_mean then vec_add mus (means ext (mean_func self)) else Inr mus) (\<lambda>mus.
         if length mus = length nY
         then Inr (map2 (\<lambda>i (mu, v). (i, mu, v)) (map fst nY) (zip mus vs))
         else Inl ValueError))))))"

definition u_LOO_log_p ::
  "('k, 'mf) externals \<Rightarrow> ('k, 'mf) GPModel \<Rightarrow> vec \<Rightarrow> error + real" where
  "u_LOO_log_p ext self hs =
     ebind (LOO_res ext self hs False False) (\<lambda>LOO.
     ebind (attr (normed_Y self)) (\<lambda>nY.
       let log_ps = map2 (\<lambda>(i, mu, v) y. - 0.5 * ln v - (y - mu)\<^sup>2 / 2 / v - 0.5 * ln (2 * pi))
                      LOO (map snd nY)
       in Inr (- sum_list log_ps)))"

subsection \<open>Fitting\<close>

text \<open>
  \<^verbatim>\<open>_set_hypers\<close> and \<^verbatim>\<open>fit\<close> assign to attributes of \<^verbatim>\<open>self\<close> as they go. They return
  the model as it is when they return or raise, with the exception raised, if any.
  \<open>u_set_hypers\<close> is the method for an iterable of values, as \<^verbatim>\<open>fit\<close> calls it.
\<close>

definition u_set_hypers ::
  "('k, 'mf) externals \<Rightarrow> ('k, 'mf) GPModel \<Rightarrow> vec \<Rightarrow> error option \<times> ('k, 'mf) GPModel" where
  "u_set_hypers ext self hs =
     (case attr (regr self) of Inl e \<Rightarrow> (Some e, self) | Inr r \<Rightarrow>
      case namedtuple_make
             (if r \<and> variances self = None then ''var_n'' # kern_hypers ext (kern self)
              else kern_hypers ext (kern self)) hs of
        Inl e \<Rightarrow> (Some e, self) | Inr h \<Rightarrow>
      let self = self\<lparr>hypers := Some h\<rparr> in
      if r then
        (case u_make_Ks ext self hs of Inl e \<Rightarrow> (Some e, self) | Inr (K, Ky) \<Rightarrow>
         let self = self\<lparr>u_K := Some K, u_Ky := Some Ky\<rparr> in
         case cholesky Ky of Inl e \<Rightarrow> (Some e, self) | Inr L \<Rightarrow>
         let self = self\<lparr>u_L := Some L\<rparr> in
         case ebind (attr (normed_Y self)) (\<lambda>nY. solve_alpha L (map snd nY)) of
           Inl e \<Rightarrow> (Some e, self) | Inr alpha \<Rightarrow>
         let self = self\<lparr>u_alpha := Some alpha\<rparr> in
         case u_log_ML ext self (map snd h) of Inl e \<Rightarrow> (Some e, self) | Inr ml \<Rightarrow>
         let self = self\<lparr>attr_ML := Some ml\<rparr> in
         case u_LOO_log_p ext self (map snd h) of Inl e \<Rightarrow> (Some e, self) | Inr lp \<Rightarrow>
         (None, self\<lparr>log_p := Some lp\<rparr>))
      else
        (case u_find_F ext self (map snd h) None (1 / 10000) 1000 of
           Inl e \<Rightarrow> (Some e, self) | Inr f_hat \<Rightarrow>
         let self = self\<lparr>u_f_hat := Some f_hat\<rparr> in
         case u_hess (map snd f_hat) of Inl e \<Rightarrow> (Some e, self) | Inr W \<Rightarrow>
         let self = self\<lparr>u_W := Some W\<rparr>;
             self = self\<lparr>u_W_root := Some (sqrtm W)\<rparr>;
             Ky = make_K ext (kern self) (map snd h);
             self = self\<lparr>u_Ky := Some Ky\<rparr> in
         case ebind (attr (u_ell self)) (\<lambda>ell.
              ebind (np_dot_mm (sqrtm W) Ky) (\<lambda>WK.
              ebind (np_dot_mm WK (sqrtm W)) (\<lambda>WKW.
              ebind (mat_add (scaled_identity ell 1) WKW) cholesky))) of
           Inl e \<Rightarrow> (Some e, self) | Inr L \<Rightarrow>
         let self = self\<lparr>u_L := Some L\<rparr> in
         case ebind (attr (Y self)) (\<lambda>Ys.
                u_grad_log_logistic_likelihood (map snd Ys) (map snd f_hat)) of
           Inl e \<Rightarrow> (Some e, self) | Inr G \<Rightarrow>
         let self = self\<lparr>u_grad := Some (diag_of G)\<rparr> in
         case u_log_ML ext self (map snd h) of Inl e \<Rightarrow> (Some e, self) | Inr ml \<Rightarrow>
         (None, self\<lparr>attr_ML := Some ml\<rparr>)))"



subsection \<open>Batched prediction and scoring\<close>

text \<open>
  \<^verbatim>\<open>predicts\<close> trains the cache of the kernel on the new sequences, predicts each
  of them, and by default removes from the cache the new sequences that are not in the
  training set (here in the order of \<^verbatim>\<open>new_seqs\<close>). It returns the model next to the
  result because the kernel has changed, also when a prediction raises.
\<close>

definition predicts ::
  "('k, 'mf) externals \<Rightarrow> ('k, 'mf) GPModel \<Rightarrow> seqs \<Rightarrow> bool
     \<Rightarrow> (error + prediction list) \<times> ('k, 'mf) GPModel" where
  "predicts ext self new_seqs del =
     (let self = self\<lparr>kern := train ext new_seqs (kern self)\<rparr> in
      case ebind (attr (regr self)) (\<lambda>r.
           ebind (attr (hypers self)) (\<lambda>hp.
             let h = (if r then tl (map snd hp) else map snd hp) in
             emap (\<lambda>ns.
                ebind (attr (X_seqs self)) (\<lambda>X.
                  u_predict ext self
                    (map (\<lambda>seq1. calc_kernel ext (kern self) ns seq1 h) (map fst X))
                    (calc_kernel ext (kern self) ns ns h) None None True))
              (map fst new_seqs))) of
        Inl e \<Rightarrow> (Inl e, self)
      | Inr predictions \<Rightarrow>
      case (if del then
              ebind (attr (X_seqs self)) (\<lambda>X.
                Inr (self\<lparr>kern := delete ext
                       (filter (\<lambda>(i, a). i \<notin> set (map fst X)) new_seqs) (kern self)\<rparr>))
            else Inr self) of
        Inl e \<Rightarrow> (Inl e, self)
      | Inr self \<Rightarrow>
      case attr (regr self) of Inl e \<Rightarrow> (Inl e, self) | Inr r \<Rightarrow>
      if r then
        (Inr (map2 (\<lambda>p pr. case pr of
                       Regression m v \<Rightarrow> Regression (m + p) v
                     | Classification q f v \<Rightarrow> Regression (q + p) f)
                (mean_of ext (mean_func self) new_seqs) predictions), self)
      else (Inr predictions, self))"

text \<open>
  What \<^verbatim>\<open>score\<close> returns: one number, or a dictionary from metric names to numbers.
  \<open>as_row\<close> is a prediction as the row of an array.
\<close>

datatype score_result = Score real | Scores "(string \<times> real) list"

fun as_row :: "prediction \<Rightarrow> vec" where
  "as_row (Regression m v) = [m, v]"
| "as_row (Classification p f v) = [p, f, v]"

text \<open>
  \<^verbatim>\<open>score\<close>. \<open>kendalltau\<close> is \<^verbatim>\<open>stats.kendalltau\<close> of the ranks of its arguments, and
  \<open>corrcoef\<close> the entry \<^verbatim>\<open>[0,1]\<close> of \<^verbatim>\<open>np.corrcoef\<close>.
\<close>

definition score ::
  "('k, 'mf) externals \<Rightarrow> ('k, 'mf) GPModel \<Rightarrow> seqs \<Rightarrow> series \<Rightarrow> string list
     \<Rightarrow> (error + score_result) \<times> ('k, 'mf) GPModel" where
  "score ext self X Ys args =
     (if \<not> (set (map fst X) = set (map fst Ys) \<and> length X = length Ys)
      then (Inl ValueError, self)
      else
        case predicts ext self X True of
          (Inl e, self) \<Rightarrow> (Inl e, self)
        | (Inr predicted, self) \<Rightarrow>
        case attr (regr self) of Inl e \<Rightarrow> (Inl e, self) | Inr r \<Rightarrow>
        if \<not> r then
          (ebind (roc_auc_score ext (map snd Ys) (map as_row predicted))
             (\<lambda>a. Inr (Score a)), self)
        else
          let pred_Y = map (hd \<circ> as_row) predicted in
          if args = [] then (Inr (Score (kendalltau ext (map snd Ys) pred_Y)), self)
          else
            (ebind (emap (\<lambda>t.
                      if t = ''kendalltau'' then Inr (t, kendalltau ext (map snd Ys) pred_Y)
                      else if t = ''R2'' then Inr (t, r2_score ext (map snd Ys) pred_Y)
                      else if t = ''R'' then Inr (t, corrcoef ext (map snd Ys) pred_Y)
                      else Inl ValueError) args) (\<lambda>scores.
               if length (remdups (map fst scores)) = 1 then Inr (Score (snd (hd scores)))
               else Inr (Scores (map (\<lambda>t. (t, the (map_of scores t)))
                                   (remdups (map fst scores))))), self))"

subsection \<open>Batch selection by upper bound\<close>

text \<open>
  A row of the data frame of \<^verbatim>\<open>batch_UB_bandit\<close>. The upper bound is \<open>None\<close> when it
  is NaN: numpy's square root of a negative variance.
\<close>

record cand =
  c_id :: ident
  c_mean :: real
  c_var :: real
  c_UB :: "real option"
  c_k_star :: real
  c_k :: vec

definition upper_bound :: "real \<Rightarrow> real \<Rightarrow> real option" where
  "upper_bound m v = (if v < 0 then None else Some (m + sqrt v * 2))"

text \<open>The first two columns of an array of predictions.\<close>

fun pred_cols :: "prediction \<Rightarrow> real \<times> real" where
  "pred_cols (Regression m v) = (m, v)"
| "pred_cols (Classification p f v) = (p, f)"

text \<open>
  \<^verbatim>\<open>df[['UB']].idxmax()\<close>: the label of the first row whose upper bound is the largest,
  rows with NaN skipped. An empty frame raises \<^verbatim>\<open>ValueError\<close>. When every upper bound is
  NaN pandas gives NaN for the label, and the look-up by that label which follows fails;
  that is the \<^verbatim>\<open>KeyError\<close> here.
\<close>

fun best :: "(real \<times> ident) option \<Rightarrow> cand list \<Rightarrow> (real \<times> ident) option" where
  "best b [] = b"
| "best b (r # rs) =
     (case c_UB r of
        None \<Rightarrow> best b rs
      | Some u \<Rightarrow>
          (case b of
             None \<Rightarrow> best (Some (u, c_id r)) rs
           | Some (u0, i0) \<Rightarrow> if u0 < u then best (Some (u, c_id r)) rs else best b rs))"

definition idxmax :: "cand list \<Rightarrow> error + ident" where
  "idxmax df =
     (if df = [] then Inl ValueError
      else case best None df of None \<Rightarrow> Inl KeyError | Some (u, i) \<Rightarrow> Inr i)"

text \<open>
  The lines under \<^verbatim>\<open>if i != n-1\<close>: the selected candidate joins the observations, the
  covariance grows by its row and column, the factor and the weights are computed
  again, and the candidates that remain are predicted again. The labels of the pool are
  taken to be distinct, as the spec has them: a label stands for its first row.
\<close>

definition bandit_update ::
  "('k, 'mf) externals \<Rightarrow> ('k, 'mf) GPModel \<Rightarrow> seqs \<Rightarrow> vec \<Rightarrow> ident
     \<Rightarrow> cand list \<times> seqs \<times> series \<times> mat
     \<Rightarrow> error + cand list \<times> seqs \<times> series \<times> mat" where
  "bandit_update ext self sequences h id_max st =
     (case st of (df, observed_X, observed_Y, Ky) \<Rightarrow>
      case filter (\<lambda>r. c_id r = id_max) df of
        [] \<Rightarrow> Inl KeyError
      | row # _ \<Rightarrow>
      let observed_X = observed_X @ filter (\<lambda>(i, a). i = id_max) sequences;
          observed_Y = observed_Y @ [(id_max, c_mean row)] in
      if \<not> list_all (\<lambda>r. length r = length (c_k row)) Ky then Inl ValueError
      else
      let Ky = Ky @ [c_k row] in
      ebind (attr (hypers self)) (\<lambda>hp.
      ebind (case map_of hp ''var_n'' of None \<Rightarrow> Inl AttributeError | Some vn \<Rightarrow> Inr vn) (\<lambda>var_n.
      let new_column = c_k row @ [c_k_star row + var_n] in
      if length Ky \<noteq> length new_column then Inl ValueError
      else
      let Ky = map2 (\<lambda>r c. r @ [c]) Ky new_column in
      ebind (cholesky Ky) (\<lambda>L.
      ebind (solve_alpha L (map snd observed_Y)) (\<lambda>alpha.
      let df = filter (\<lambda>r. c_id r \<noteq> id_max) df;
          df = map (\<lambda>r. r\<lparr>c_k := c_k r @ [calc_kernel ext (kern self) (c_id r) id_max h]\<rparr>) df in
      ebind (emap (\<lambda>r. u_predict ext self (c_k r) (c_k_star r) (Some alpha) (Some L) False) df)
        (\<lambda>predictions.
      if predictions = [] then Inl IndexError
      else
        Inr (map2 (\<lambda>r p. case pred_cols p of
                     (m, v) \<Rightarrow> r\<lparr>c_UB := upper_bound m v, c_mean := m, c_var := v\<rparr>)
               df predictions,
             observed_X, observed_Y, Ky)))))))"

text \<open>
  The loop \<^verbatim>\<open>for i in range(n)\<close>, on the number of rounds that are left: the last
  round selects and does not update.
\<close>

fun bandit_loop ::
  "('k, 'mf) externals \<Rightarrow> ('k, 'mf) GPModel \<Rightarrow> seqs \<Rightarrow> vec \<Rightarrow> nat
     \<Rightarrow> cand list \<times> seqs \<times> series \<times> mat \<Rightarrow> ident list \<Rightarrow> error + ident list" where
  "bandit_loop ext self sequences h 0 st selected = Inr selected"
| "bandit_loop ext self sequences h (Suc rounds) st selected =
     ebind (idxmax (fst st)) (\<lambda>id_max.
       if rounds = 0 then Inr (selected @ [id_max])
       else
         ebind (bandit_update ext self sequences h id_max st) (\<lambda>st.
           bandit_loop ext self sequences h rounds st (selected @ [id_max])))"

text \<open>
  The frame before the loop. Without the caller's predictions each candidate is
  predicted from the stored factor and weights, on the normalised scale. An array of
  no predictions has one dimension, and taking its columns raises \<^verbatim>\<open>IndexError\<close>; an
  array of triples does not fit the two columns of the frame (\<^verbatim>\<open>ValueError\<close>), nor
  does an array of the caller with another number of rows.
\<close>

definition bandit_frame ::
  "('k, 'mf) externals \<Rightarrow> ('k, 'mf) GPModel \<Rightarrow> seqs \<Rightarrow> vec \<Rightarrow> (real \<times> real) list option
     \<Rightarrow> error + cand list" where
  "bandit_frame ext self sequences h predictions =
     (let k_stars = map (\<lambda>ns. calc_kernel ext (kern self) ns ns h) (map fst sequences) in
      ebind (emap (\<lambda>s. ebind (attr (X_seqs self)) (\<lambda>X.
                     Inr (map (\<lambda>seq1. calc_kernel ext (kern self) s seq1 h) (map fst X))))
               (map fst sequences)) (\<lambda>ks.
      ebind (case predictions of
               Some ps \<Rightarrow> if length ps \<noteq> length sequences then Inl ValueError else Inr ps
             | None \<Rightarrow>
                 ebind (emap (\<lambda>(k, k_star). u_predict ext self k k_star None None False)
                          (zip ks k_stars)) (\<lambda>ps.
                   if ps = [] then Inl IndexError
                   else if list_all (\<lambda>p. length (as_row p) = 2) ps then Inr (map pred_cols ps)
                   else Inl ValueError)) (\<lambda>ps.
        Inr (map (\<lambda>((i, a), (m, v), k_star, k).
                    \<lparr>c_id = i, c_mean = m, c_var = v, c_UB = upper_bound m v,
                     c_k_star = k_star, c_k = k\<rparr>)
               (zip sequences (zip ps (zip k_stars ks)))))))"

text \<open>
  \<^verbatim>\<open>batch_UB_bandit\<close>: the selected rows of \<^verbatim>\<open>sequences\<close> and their labels, and the
  model as the call leaves it.
\<close>

definition batch_UB_bandit ::
  "('k, 'mf) externals \<Rightarrow> ('k, 'mf) GPModel \<Rightarrow> seqs \<Rightarrow> nat \<Rightarrow> (real \<times> real) list option
     \<Rightarrow> (error + seqs \<times> ident list) \<times> ('k, 'mf) GPModel" where
  "batch_UB_bandit ext self sequences n predictions =
     (case ebind (attr (X_seqs self)) (\<lambda>observed_X.
           ebind (attr (normed_Y self)) (\<lambda>observed_Y.
           ebind (attr (u_Ky self)) (\<lambda>Ky. Inr (observed_X, observed_Y, Ky)))) of
        Inl e \<Rightarrow> (Inl e, self)
      | Inr (observed_X, observed_Y, Ky) \<Rightarrow>
      let self = self\<lparr>kern := train ext sequences (kern self)\<rparr> in
      (ebind (attr (regr self)) (\<lambda>r.
       ebind (attr (hypers self)) (\<lambda>hp.
       let h = (if r then tl (map snd hp) else map snd hp) in
       ebind (bandit_frame ext self sequences h predictions) (\<lambda>df.
       ebind (bandit_loop ext self sequences h n (df, observed_X, observed_Y, Ky) [])
         (\<lambda>selected.
          Inr (concat (map (\<lambda>i. filter (\<lambda>(j, a). j = i) sequences) selected), selected))))),
       self))"

subsection \<open>A small instance of the collaborators\<close>

text \<open>
  For the examples: a kernel in the manner of the Hamming kernel of the tests (the
  covariance of two sequences is \<^verbatim>\<open>var_p\<close> times the number of positions where they
  agree; its state is the training set and the cache of trained sequences), the zero
  mean function (its state is the fitted means), an optimiser that returns its starting
  point, the inverse of a matrix of one or two rows, the midpoint rule, and dictionaries
  that keep the order of insertion.
\<close>

definition hamming :: "string \<Rightarrow> string \<Rightarrow> real" where
  "hamming a b = real (length (filter (\<lambda>(x, y). x = y) (zip a b)))"

definition inv_small :: "mat \<Rightarrow> error + mat" where
  "inv_small A =
     (case A of
        [[a]] \<Rightarrow> if a = 0 then Inl LinAlgError else Inr [[1 / a]]
      | [[a, b], [c, d]] \<Rightarrow>
          if a * d - b * c = 0 then Inl LinAlgError
          else Inr [[d / (a * d - b * c), - b / (a * d - b * c)],
                    [- c / (a * d - b * c), a / (a * d - b * c)]]
      | _ \<Rightarrow> Inl LinAlgError)"

text \<open>
  The area under the ROC curve as sklearn computes it for labels in \<open>{-1, 1}\<close>: the
  scores must be one column (\<^verbatim>\<open>ValueError\<close> otherwise, as when both classes are not
  present), and a pair of a positive and a negative sample counts 1 when the positive
  one has the larger score and 1/2 when the scores are equal.
\<close>

definition auc_pairs :: "vec \<Rightarrow> mat \<Rightarrow> error + real" where
  "auc_pairs ys scores =
     (if \<not> list_all (\<lambda>r. length r = 1) scores \<or> length scores \<noteq> length ys then Inl ValueError
      else
        let pos = map (hd \<circ> snd) (filter (\<lambda>(y, r). y = 1) (zip ys scores));
            neg = map (hd \<circ> snd) (filter (\<lambda>(y, r). y \<noteq> 1) (zip ys scores))
        in if pos = [] \<or> neg = [] then Inl ValueError
           else Inr (sum_list (map (\<lambda>p. sum_list (map (\<lambda>n. if n < p then 1 else if n = p then 1 / 2 else 0) neg)) pos)
                     / (real (length pos) * real (length neg))))"

definition example_ext :: "(seqs \<times> seqs, vec) externals" where
  "example_ext =
     \<lparr>kern_hypers = (\<lambda>k. [''var_p'']),
      set_X = (\<lambda>X (tr, cache). (X, cache)),
      make_K = (\<lambda>(tr, cache) hs. map (\<lambda>(i, a). map (\<lambda>(j, b). hamming a b * hd hs) tr) tr),
      calc_kernel = (\<lambda>(tr, cache) a b hs.
         case (map_of cache a, map_of cache b) of
           (Some s, Some t) \<Rightarrow> hamming s t * hd hs
         | _ \<Rightarrow> 0),
      train = (\<lambda>X (tr, cache). (tr, cache @ X)),
      delete = (\<lambda>X (tr, cache). (tr, filter (\<lambda>(i, a). i \<notin> set (map fst X)) cache)),
      GPMean = [],
      mean_fit = (\<lambda>X Ys mf. replicate (length Ys) 0),
      means = (\<lambda>mf. mf),
      mean_of = (\<lambda>mf X. replicate (length X) 0),
      minimize = (\<lambda>f x0. Inr x0),
      linalg_inv = inv_small,
      integrate_quad = (\<lambda>f a b. (b - a) * f ((a + b) / 2)),
      roc_auc_score = auc_pairs,
      kendalltau = (\<lambda>xs ys. 0),
      r2_score = (\<lambda>xs ys. 0),
      corrcoef = (\<lambda>xs ys. 0),
      dict_order = (\<lambda>ns. ns)\<rparr>"

text \<open>
  A regression model with two training sequences, measurement variances 2 and 3 and
  normalised outputs 2 and 1, before hyperparameters are set.
\<close>

definition unfitted_example :: "(seqs \<times> seqs, vec) GPModel" where
  "unfitted_example =
     (new_model example_ext ([(''A'', ''RY''), (''B'', ''RY'')], []))
       \<lparr>X_seqs := Some [(''A'', ''RY''), (''B'', ''RY'')],
        variances := Some [(''A'', 2), (''B'', 3)],
        normed_Y := Some [(''A'', 2), (''B'', 1)],
        mean := Some 10, std := Some 3, regr := Some True, u_ell := Some 2\<rparr>"

text \<open>
  The same model with the hyperparameter \<^verbatim>\<open>var_p = 1\<close>: the noisy covariance, its
  Cholesky factor, and the weights for the normalised outputs.
\<close>

definition fitted_example :: "(seqs \<times> seqs, vec) GPModel" where
  "fitted_example =
     (new_model example_ext ([(''A'', ''RY''), (''B'', ''RY'')], []))
       \<lparr>X_seqs := Some [(''A'', ''RY''), (''B'', ''RY'')],
        variances := Some [(''A'', 2), (''B'', 3)],
        normed_Y := Some [(''A'', 2), (''B'', 1)],
        mean := Some 10, std := Some 3,
        hypers := Some [(''var_p'', 1)], regr := Some True,
        u_K := Some [[2, 2], [2, 2]], u_Ky := Some [[4, 2], [2, 5]],
        u_L := Some [[2, 0], [1, 2]], u_alpha := Some [1 / 2, 0], u_ell := Some 2\<rparr>"

text \<open>
  Two classification models with one training sequence: with the outcome 1, to be used
  with a kernel that is zero, and with the outcome -1.
\<close>

definition class_example :: "(seqs \<times> seqs, vec) GPModel" where
  "class_example =
     (new_model example_ext ([(''A'', ''R'')], []))
       \<lparr>X_seqs := Some [(''A'', ''R'')], Y := Some [(''A'', 1)], regr := Some False,
        u_ell := Some 1\<rparr>"

definition class_example_neg :: "(seqs \<times> seqs, vec) GPModel" where
  "class_example_neg =
     (new_model example_ext ([(''A'', ''R'')], []))
       \<lparr>X_seqs := Some [(''A'', ''R'')], Y := Some [(''A'', - 1)], regr := Some False,
        u_ell := Some 1\<rparr>"

section \<open>Properties\<close>

subsection \<open>Results and attributes\<close>

lemma ebind_Inr [simp]: "ebind (Inr v) f = f v"
  by (simp add: ebind_def)

lemma ebind_Inl [simp]: "ebind (Inl e) f = Inl e"
  by (simp add: ebind_def)

lemma attr_Some [simp]: "attr (Some v) = Inr v"
  by (simp add: attr_def)

lemma attr_None [simp]: "attr None = Inl AttributeError"
  by (simp add: attr_def)

subsection \<open>Linear algebra\<close>

lemma dot_Nil [simp]: "dot [] ys = 0" "dot xs [] = 0"
  by (simp_all add: dot_def)

lemma dot_Cons [simp]: "dot (x # xs) (y # ys) = x * y + dot xs ys"
  by (simp add: dot_def)

lemma dot_commute: "dot xs ys = dot ys xs"
proof (induction xs arbitrary: ys)
  case Nil
  show ?case by simp
next
  case (Cons x xs)
  then show ?case by (cases ys) simp_all
qed

lemma dot_take_left: "length ys \<le> n \<Longrightarrow> dot (take n xs) ys = dot xs ys"
proof (induction xs arbitrary: ys n)
  case Nil
  show ?case by simp
next
  case (Cons x xs)
  show ?case
  proof (cases ys)
    case Nil
    then show ?thesis by simp
  next
    case (Cons y ys')
    with Cons.prems obtain n' where "n = Suc n'" by (cases n) auto
    with Cons.IH [of ys' n'] Cons.prems Cons show ?thesis by simp
  qed
qed

lemma dot_snoc:
  "length xs = length ys \<Longrightarrow> dot (xs @ [a]) (ys @ [b]) = dot xs ys + a * b"
  by (induction xs ys rule: list_induct2) simp_all

lemma dot_append_short: "length ys \<le> length xs \<Longrightarrow> dot (xs @ zs) ys = dot xs ys"
proof (induction xs arbitrary: ys)
  case Nil
  then show ?case by simp
next
  case (Cons x xs)
  then show ?case by (cases ys) simp_all
qed

lemma dot_append_zeros: "dot (xs @ replicate k 0) ys = dot xs ys"
proof (induction xs arbitrary: ys)
  case Nil
  show ?case
  proof (induction k arbitrary: ys)
    case 0
    show ?case by simp
  next
    case (Suc k)
    then show ?case by (cases ys) simp_all
  qed
next
  case (Cons x xs)
  then show ?case by (cases ys) simp_all
qed

lemma dot_take_zeros:
  assumes "\<forall>j < length r. k \<le> j \<longrightarrow> r ! j = 0"
  shows "dot (take k r) ys = dot r ys"
proof -
  have "drop k r = replicate (length r - k) 0"
    using assms by (intro nth_equalityI) simp_all
  then have "r = take k r @ replicate (length r - k) 0"
    by (metis append_take_drop_id)
  then have "dot r ys = dot (take k r @ replicate (length r - k) 0) ys" by simp
  then show ?thesis by (simp add: dot_append_zeros)
qed

lemma dot_rev: "length xs = length ys \<Longrightarrow> dot (rev xs) (rev ys) = dot xs ys"
  by (induction xs ys rule: list_induct2) (simp_all add: dot_snoc)

lemma is_square_nth: "is_square A \<Longrightarrow> i < length A \<Longrightarrow> length (A ! i) = length A"
  by (simp add: is_square_def list_all_length)

lemma lower_triangular_from_nth:
  "lower_triangular_from k A \<longleftrightarrow>
     (\<forall>i < length A. \<forall>j < length (A ! i). k + i < j \<longrightarrow> A ! i ! j = 0)"
proof (induction A arbitrary: k)
  case Nil
  show ?case by simp
next
  case (Cons r rs)
  have row: "list_all (\<lambda>x. x = 0) (drop (Suc k) r) \<longleftrightarrow> (\<forall>j < length r. k < j \<longrightarrow> r ! j = 0)"
  proof
    assume h: "list_all (\<lambda>x. x = 0) (drop (Suc k) r)"
    show "\<forall>j < length r. k < j \<longrightarrow> r ! j = 0"
    proof (intro allI impI)
      fix j assume j: "j < length r" "k < j"
      then have "drop (Suc k) r ! (j - Suc k) = r ! j" by simp
      moreover have "j - Suc k < length (drop (Suc k) r)" using j by simp
      ultimately show "r ! j = 0" using h unfolding list_all_length by metis
    qed
  next
    assume h: "\<forall>j < length r. k < j \<longrightarrow> r ! j = 0"
    show "list_all (\<lambda>x. x = 0) (drop (Suc k) r)"
      unfolding list_all_length using h by simp
  qed
  have "(\<forall>i < length (r # rs). \<forall>j < length ((r # rs) ! i). k + i < j \<longrightarrow> (r # rs) ! i ! j = 0)
     \<longleftrightarrow> (\<forall>j < length r. k < j \<longrightarrow> r ! j = 0) \<and>
         (\<forall>i < length rs. \<forall>j < length (rs ! i). Suc k + i < j \<longrightarrow> rs ! i ! j = 0)"
    by (simp add: All_less_Suc2)
  then show ?case using Cons.IH [of "Suc k"] row by simp
qed

text \<open>Forward substitution keeps what it has found and solves one more row each step.\<close>

lemma forward_subst_length:
  "length rs \<le> length bs \<Longrightarrow> length (forward_subst rs bs xs) = length xs + length rs"
  by (induction rs bs xs rule: forward_subst.induct) simp_all

lemma forward_subst_prefix:
  "take (length xs) (forward_subst rs bs xs) = xs"
proof (induction rs bs xs rule: forward_subst.induct)
  case (3 r rs b bs xs)
  let ?xs' = "xs @ [(b - dot r xs) / (r ! length xs)]"
  have "take (length xs) (forward_subst rs bs ?xs')
      = take (length xs) (take (length ?xs') (forward_subst rs bs ?xs'))"
    by (simp add: min_def)
  also have "\<dots> = take (length xs) ?xs'" using 3 by simp
  also have "\<dots> = xs" by simp
  finally show ?case by simp
qed simp_all

lemma forward_subst_solves:
  assumes "length bs = length rs"
    and "\<forall>i < length rs. length xs + i < length (rs ! i) \<and> rs ! i ! (length xs + i) \<noteq> 0"
    and "i < length rs"
  shows "dot (take (Suc (length xs + i)) (rs ! i)) (forward_subst rs bs xs) = bs ! i"
  using assms
proof (induction rs bs xs arbitrary: i rule: forward_subst.induct)
  case (1 bs xs)
  then show ?case by simp
next
  case (2 r rs xs)
  then show ?case by simp
next
  case (3 r rs b bs xs)
  let ?x = "(b - dot r xs) / (r ! length xs)"
  let ?xs' = "xs @ [?x]"
  let ?ys = "forward_subst rs bs ?xs'"
  have len: "length bs = length rs" using "3.prems"(1) by simp
  have rows: "\<forall>j < length rs. length ?xs' + j < length (rs ! j) \<and> rs ! j ! (length ?xs' + j) \<noteq> 0"
  proof (intro allI impI)
    fix j assume "j < length rs"
    then have "Suc j < length (r # rs)" by simp
    with "3.prems"(2) have "length xs + Suc j < length ((r # rs) ! Suc j) \<and>
       (r # rs) ! Suc j ! (length xs + Suc j) \<noteq> 0" by blast
    then show "length ?xs' + j < length (rs ! j) \<and> rs ! j ! (length ?xs' + j) \<noteq> 0" by simp
  qed
  show ?case
  proof (cases i)
    case 0
    from "3.prems"(2) have r: "length xs < length r" "r ! length xs \<noteq> 0" by auto
    have pre: "take (Suc (length xs)) ?ys = ?xs'"
      using forward_subst_prefix [of ?xs' rs bs] by simp
    have "dot (take (Suc (length xs)) r) ?ys = dot ?ys (take (Suc (length xs)) r)"
      by (rule dot_commute)
    also have "\<dots> = dot (take (Suc (length xs)) ?ys) (take (Suc (length xs)) r)"
      by (rule dot_take_left [symmetric]) simp
    also have "\<dots> = dot ?xs' (take (length xs) r @ [r ! length xs])"
      using pre r by (simp add: take_Suc_conv_app_nth)
    also have "\<dots> = dot xs (take (length xs) r) + ?x * r ! length xs"
      using r by (intro dot_snoc) simp
    also have "dot xs (take (length xs) r) = dot r xs"
      by (simp add: dot_commute [of xs] dot_take_left)
    also have "dot r xs + ?x * r ! length xs = b" using r by simp
    finally show ?thesis using 0 by simp
  next
    case (Suc j)
    with "3.prems"(3) have j: "j < length rs" by simp
    from "3.IH" [OF len rows j] show ?thesis using Suc by simp
  qed
qed

lemma forward_subst_row:
  assumes sq: "is_square F"
    and tri: "\<forall>i < length F. \<forall>j < length F. i < j \<longrightarrow> F ! i ! j = 0"
    and diag: "\<forall>i < length F. F ! i ! i \<noteq> 0"
    and b: "length b = length F"
    and i: "i < length F"
  shows "dot (F ! i) (forward_subst F b []) = b ! i"
proof -
  have rows: "\<forall>i < length F. length ([]::vec) + i < length (F ! i) \<and> F ! i ! (length ([]::vec) + i) \<noteq> 0"
    using sq diag by (simp add: is_square_nth)
  have "dot (take (Suc (length ([]::vec) + i)) (F ! i)) (forward_subst F b []) = b ! i"
    by (rule forward_subst_solves [OF b rows i])
  moreover have "dot (take (Suc i) (F ! i)) (forward_subst F b []) = dot (F ! i) (forward_subst F b [])"
    using tri i sq by (intro dot_take_zeros) (simp add: is_square_nth)
  ultimately show ?thesis by simp
qed

text \<open>The solver solves lower and upper triangular systems.\<close>

lemma lstsq_lower:
  assumes sq: "is_square A" and lt: "lower_triangular A"
    and diag: "\<forall>i < length A. A ! i ! i \<noteq> 0"
    and b: "length b = length A"
  shows "\<exists>v. lstsq A b = Inr v \<and> length v = length A \<and> mat_vec A v = b"
proof -
  let ?v = "forward_subst A b []"
  have tri: "\<forall>i < length A. \<forall>j < length A. i < j \<longrightarrow> A ! i ! j = 0"
    using lt sq by (simp add: lower_triangular_def lower_triangular_from_nth is_square_nth)
  have "mat_vec A ?v = b"
  proof (rule nth_equalityI)
    show "length (mat_vec A ?v) = length b" using b by (simp add: mat_vec_def)
  next
    fix i assume "i < length (mat_vec A ?v)"
    then have i: "i < length A" by (simp add: mat_vec_def)
    show "mat_vec A ?v ! i = b ! i"
      using forward_subst_row [OF sq tri diag b i] i by (simp add: mat_vec_def)
  qed
  moreover have "length ?v = length A"
    using forward_subst_length [of A b "[]"] b by simp
  moreover have "lstsq A b = Inr ?v" using lt b by (simp add: lstsq_def)
  ultimately show ?thesis by blast
qed

lemma lstsq_upper:
  assumes sq: "is_square A" and ut: "\<forall>i < length A. \<forall>j < i. A ! i ! j = 0"
    and diag: "\<forall>i < length A. A ! i ! i \<noteq> 0"
    and b: "length b = length A"
  shows "\<exists>v. lstsq A b = Inr v \<and> length v = length A \<and> mat_vec A v = b"
proof (cases "lower_triangular A")
  case True
  then show ?thesis by (rule lstsq_lower [OF sq _ diag b])
next
  case False
  let ?n = "length A"
  let ?F = "rev (map rev A)"
  let ?y = "forward_subst ?F (rev b) []"
  have Fi: "?F ! i = rev (A ! (?n - Suc i))" if "i < ?n" for i
    using that by (simp add: rev_nth)
  have Fij: "?F ! i ! j = A ! (?n - Suc i) ! (?n - Suc j)" if "i < ?n" "j < ?n" for i j
    using that sq by (simp add: Fi rev_nth is_square_nth)
  have sqF: "is_square ?F"
    using sq by (simp add: is_square_def list_all_iff)
  have triF: "\<forall>i < length ?F. \<forall>j < length ?F. i < j \<longrightarrow> ?F ! i ! j = 0"
  proof (intro allI impI)
    fix i j assume ij: "i < length ?F" "j < length ?F" "i < j"
    then have "?n - Suc j < ?n - Suc i" "?n - Suc i < ?n" by simp_all
    with ut have "A ! (?n - Suc i) ! (?n - Suc j) = 0" by blast
    with ij show "?F ! i ! j = 0" using Fij by simp
  qed
  have diagF: "\<forall>i < length ?F. ?F ! i ! i \<noteq> 0"
    using diag Fij by simp
  have lenb: "length (rev b) = length ?F" using b by simp
  have leny: "length ?y = ?n"
    using forward_subst_length [of ?F "rev b" "[]"] b by simp
  have "mat_vec A (rev ?y) = b"
  proof (rule nth_equalityI)
    show "length (mat_vec A (rev ?y)) = length b" using b by (simp add: mat_vec_def)
  next
    fix i assume "i < length (mat_vec A (rev ?y))"
    then have i: "i < ?n" by (simp add: mat_vec_def)
    then have i': "?n - Suc i < length ?F" by simp
    have "dot (A ! i) (rev ?y) = dot (rev (rev (A ! i))) (rev ?y)" by simp
    also have "\<dots> = dot (rev (A ! i)) ?y"
      using leny sq i by (intro dot_rev) (simp add: is_square_nth)
    also have "rev (A ! i) = ?F ! (?n - Suc i)" using i by (simp add: Fi)
    also have "dot (?F ! (?n - Suc i)) ?y = rev b ! (?n - Suc i)"
      by (rule forward_subst_row [OF sqF triF diagF lenb i'])
    also have "\<dots> = b ! i" using i b by (simp add: rev_nth)
    finally show "mat_vec A (rev ?y) ! i = b ! i"
      using i by (simp add: mat_vec_def)
  qed
  moreover have "lstsq A b = Inr (rev ?y)" using False b by (simp add: lstsq_def)
  ultimately show ?thesis using leny by auto
qed

text \<open>The Cholesky factorisation, when it succeeds, returns a factor of its argument.\<close>

definition packed_factor :: "mat \<Rightarrow> mat \<Rightarrow> bool" where
  "packed_factor A Ls \<longleftrightarrow>
     (\<forall>j < length Ls. length (Ls ! j) = Suc j \<and> 0 < Ls ! j ! j \<and>
        (\<forall>k \<le> j. dot (Ls ! j) (Ls ! k) = A ! j ! k))"

lemma packed_factor_step:
  assumes pf: "packed_factor A Ls"
    and a: "a = A ! length Ls" "length Ls < length a"
    and d: "0 < a ! length Ls - dot x x"
    and x: "x = forward_subst Ls (take (length Ls) a) []"
  shows "packed_factor A (Ls @ [x @ [sqrt (a ! length Ls - dot x x)]])"
proof -
  let ?m = "length Ls"
  let ?d = "a ! ?m - dot x x"
  let ?r = "x @ [sqrt ?d]"
  have lenx: "length x = ?m"
    using forward_subst_length [of Ls "take ?m a" "[]"] a x by simp
  have rows: "\<forall>i < length Ls. length ([]::vec) + i < length (Ls ! i) \<and> Ls ! i ! (length ([]::vec) + i) \<noteq> 0"
    using pf by (auto simp: packed_factor_def)
  have sol: "dot (Ls ! k) x = a ! k" if "k < ?m" for k
  proof -
    have "dot (take (Suc (length ([]::vec) + k)) (Ls ! k)) (forward_subst Ls (take ?m a) []) = take ?m a ! k"
      using a that by (intro forward_subst_solves rows) simp_all
    moreover have "length (Ls ! k) = Suc k" using pf that by (simp add: packed_factor_def)
    ultimately show ?thesis using that x by simp
  qed
  show ?thesis
    unfolding packed_factor_def
  proof (intro allI impI)
    fix j assume j: "j < length (Ls @ [?r])"
    show "length ((Ls @ [?r]) ! j) = Suc j \<and> 0 < (Ls @ [?r]) ! j ! j \<and>
        (\<forall>k \<le> j. dot ((Ls @ [?r]) ! j) ((Ls @ [?r]) ! k) = A ! j ! k)"
    proof (cases "j < ?m")
      case True
      then have "\<forall>k \<le> j. (Ls @ [?r]) ! k = Ls ! k" by (simp add: nth_append)
      with True pf show ?thesis by (simp add: packed_factor_def nth_append)
    next
      case False
      with j have jm: "j = ?m" by simp
      have "dot ?r ((Ls @ [?r]) ! k) = A ! ?m ! k" if "k \<le> ?m" for k
      proof (cases "k < ?m")
        case True
        then have lk: "length (Ls ! k) = Suc k" using pf by (simp add: packed_factor_def)
        have "dot ?r (Ls ! k) = dot x (Ls ! k)"
          using lk lenx True by (intro dot_append_short) simp
        also have "\<dots> = a ! k" using sol [OF True] by (simp add: dot_commute)
        finally show ?thesis using True a by (simp add: nth_append)
      next
        case False
        with that have "k = ?m" by simp
        moreover have "dot ?r ?r = dot x x + sqrt ?d * sqrt ?d"
          by (intro dot_snoc) simp
        ultimately show ?thesis using d a by (simp add: nth_append)
      qed
      then show ?thesis using jm lenx d by (simp add: nth_append)
    qed
  qed
qed

lemma cholesky_rows_factor:
  assumes "cholesky_rows as Ls = Inr Lf"
    and "packed_factor A Ls"
    and "as = drop (length Ls) A"
    and "\<forall>r \<in> set A. length r = length A"
    and "length Ls \<le> length A"
  shows "packed_factor A Lf \<and> length Lf = length A"
  using assms
proof (induction as Ls rule: cholesky_rows.induct)
  case (1 Ls)
  then show ?case by simp
next
  case (2 a as Ls)
  let ?x = "forward_subst Ls (take (length Ls) a) []"
  let ?d = "a ! length Ls - dot ?x ?x"
  let ?Ls' = "Ls @ [?x @ [sqrt ?d]]"
  from "2.prems"(1) have d: "0 < ?d" and rec: "cholesky_rows as ?Ls' = Inr Lf"
    by (auto simp: Let_def split: if_splits)
  from "2.prems"(3) have lt: "length Ls < length A"
    by (metis drop_eq_Nil2 list.distinct(1) not_le)
  with "2.prems"(3) have a: "a = A ! length Ls"
    by (metis Cons_nth_drop_Suc list.inject)
  with lt "2.prems"(4) have la: "length Ls < length a" by simp
  have pf: "packed_factor A ?Ls'"
    using "2.prems"(2) a la d by (intro packed_factor_step) simp_all
  have dr: "as = drop (length ?Ls') A"
    using "2.prems"(3) lt by (metis Cons_nth_drop_Suc length_append_singleton list.inject)
  have le: "length ?Ls' \<le> length A" using lt by simp
  from "2.IH" [OF refl refl _ rec pf dr "2.prems"(4) le] d show ?case by simp
qed

lemma cholesky_factor:
  assumes ch: "cholesky A = Inr L"
  shows "length L = length A" and "is_square L" and "lower_triangular L"
    and "\<forall>i < length A. 0 < L ! i ! i"
    and "\<forall>i < length A. \<forall>j \<le> i. dot (L ! i) (L ! j) = A ! i ! j"
proof -
  let ?n = "length A"
  from ch obtain Ls where sq: "is_square A" and rows: "cholesky_rows A [] = Inr Ls"
    and L: "L = map (pad ?n) Ls"
    by (auto simp: cholesky_def split: if_splits sum.splits)
  have "packed_factor A Ls \<and> length Ls = ?n"
    using rows sq by (intro cholesky_rows_factor [of A "[]"])
      (simp_all add: packed_factor_def is_square_def list_all_iff)
  then have pf: "packed_factor A Ls" and len: "length Ls = ?n" by simp_all
  have row: "L ! i = Ls ! i @ replicate (?n - Suc i) 0" if "i < ?n" for i
    using that pf len L by (simp add: pad_def packed_factor_def)
  have lrow: "length (Ls ! i) = Suc i" if "i < ?n" for i
    using that pf len by (simp add: packed_factor_def)
  have lenL: "length L = ?n" using L len by simp
  then show "length L = ?n" .
  show "is_square L"
    unfolding is_square_def list_all_length
  proof (intro allI impI)
    fix i assume "i < length L"
    then have i: "i < ?n" using lenL by simp
    then have "length (L ! i) = Suc i + (?n - Suc i)" by (simp add: row lrow)
    with i show "length (L ! i) = length L" using lenL by simp
  qed
  show "lower_triangular L"
    unfolding lower_triangular_def lower_triangular_from_nth
  proof (intro allI impI)
    fix i j assume ij: "i < length L" "j < length (L ! i)" "0 + i < j"
    then have i: "i < ?n" using L len by simp
    with ij show "L ! i ! j = 0" by (simp add: row lrow nth_append)
  qed
  show "\<forall>i < ?n. 0 < L ! i ! i"
    using pf len by (simp add: row lrow nth_append packed_factor_def)
  show "\<forall>i < ?n. \<forall>j \<le> i. dot (L ! i) (L ! j) = A ! i ! j"
  proof (intro allI impI)
    fix i j assume i: "i < ?n" and j: "j \<le> i"
    then have j': "j < ?n" by simp
    have "dot (L ! i) (L ! j) = dot (Ls ! i) (L ! j)"
      by (simp add: row [OF i] dot_append_zeros)
    also have "\<dots> = dot (L ! j) (Ls ! i)" by (rule dot_commute)
    also have "\<dots> = dot (Ls ! j) (Ls ! i)"
      by (simp add: row [OF j'] dot_append_zeros)
    also have "\<dots> = dot (Ls ! i) (Ls ! j)" by (rule dot_commute)
    also have "\<dots> = A ! i ! j" using pf i j len by (simp add: packed_factor_def)
    finally show "dot (L ! i) (L ! j) = A ! i ! j" .
  qed
qed

lemma cholesky_diag_nonzero:
  "cholesky A = Inr L \<Longrightarrow> \<forall>i < length L. L ! i ! i \<noteq> 0"
  using cholesky_factor(1,4) [of A L] by fastforce

lemma cholesky_example: "cholesky [[4, 2], [2, 5]] = Inr [[2, 0], [1, 2]]"
  by (simp add: cholesky_def is_square_def pad_def)

subsection \<open>Prediction\<close>



subsection \<open>Persistence\<close>









subsection \<open>Fitting\<close>



subsection \<open>Mode finding\<close>

lemma criterion_held_0:
  "step f = Inr f1 \<Longrightarrow> criterion_held step thr f 0 = below_threshold thr f f1"
  by (simp add: criterion_held_def)

lemma criterion_held_Suc:
  "step f = Inr f1 \<Longrightarrow> criterion_held step thr f (Suc j) = criterion_held step thr f1 j"
  by (simp add: criterion_held_def)

lemma sustained_shift:
  assumes st: "step f = Inr f1"
    and s: "sustained step thr (if below_threshold thr f f1 then c + 1 else 0) f1 n"
  shows "sustained step thr c f (Suc n)"
proof -
  define c' where c': "c' = (if below_threshold thr f f1 then c + 1 else 0)"
  from s c' have len: "10 \<le> c' + n + 1"
    and held: "\<forall>j \<le> n. n < j + 10 \<longrightarrow> criterion_held step thr f1 j"
    by (simp_all add: sustained_def)
  have "criterion_held step thr f j" if "j \<le> Suc n" "Suc n < j + 10" for j
  proof (cases j)
    case 0
    with that have "n < 9" by simp
    with len c' have "below_threshold thr f f1" by (auto split: if_splits)
    with 0 st show ?thesis by (simp add: criterion_held_0)
  next
    case (Suc i)
    with that held have "criterion_held step thr f1 i" by simp
    with Suc st show ?thesis by (simp add: criterion_held_Suc)
  qed
  moreover have "10 \<le> c + Suc n + 1" using len c' by (auto split: if_splits)
  ultimately show ?thesis by (simp add: sustained_def)
qed

lemma find_F_loop_returns:
  assumes "find_F_loop step thr evals f c = Inr f'"
  shows "\<exists>n < evals. iterates step (Suc n) f = Inr f' \<and> sustained step thr c f n"
  using assms
proof (induction evals arbitrary: f c)
  case 0
  then show ?case by simp
next
  case (Suc e)
  from Suc.prems obtain f1 where st: "step f = Inr f1"
    by (cases "step f") simp_all
  let ?c' = "if below_threshold thr f f1 then c + 1 else 0"
  show ?case
  proof (cases "?c' > 9")
    case True
    with Suc.prems st have "f' = f1" by (simp add: Let_def)
    moreover from True have "sustained step thr c f 0"
      using st by (auto simp: sustained_def criterion_held_0 split: if_splits)
    ultimately show ?thesis using st by auto
  next
    case False
    with Suc.prems st have "find_F_loop step thr e f1 ?c' = Inr f'"
      by (simp add: Let_def)
    from Suc.IH [OF this] obtain n where n: "n < e" "iterates step (Suc n) f1 = Inr f'"
      "sustained step thr ?c' f1 n" by blast
    have "sustained step thr c f (Suc n)"
      by (rule sustained_shift [of step f f1 thr c n, OF st n(3)])
    moreover have "iterates step (Suc (Suc n)) f = Inr f'" using st n(2) by simp
    ultimately show ?thesis using n(1) by blast
  qed
qed

lemma find_F_loop_gives_up:
  assumes "\<forall>n < evals. \<exists>g. iterates step (Suc n) f = Inr g"
    and "\<forall>n < evals. \<not> sustained step thr c f n"
  shows "find_F_loop step thr evals f c = Inl RuntimeError"
  using assms
proof (induction evals arbitrary: f c)
  case 0
  show ?case by simp
next
  case (Suc e)
  from Suc.prems(1) have "\<exists>g. iterates step (Suc 0) f = Inr g" by blast
  then obtain f1 where st: "step f = Inr f1"
    by (cases "step f") simp_all
  let ?c' = "if below_threshold thr f f1 then c + 1 else 0"
  have small: "\<not> ?c' > 9"
  proof
    assume "?c' > 9"
    then have "sustained step thr c f 0"
      using st by (auto simp: sustained_def criterion_held_0 split: if_splits)
    with Suc.prems(2) show False by blast
  qed
  have it: "\<forall>n < e. \<exists>g. iterates step (Suc n) f1 = Inr g"
  proof (intro allI impI)
    fix n assume "n < e"
    then have "\<exists>g. iterates step (Suc (Suc n)) f = Inr g" using Suc.prems(1) by simp
    then show "\<exists>g. iterates step (Suc n) f1 = Inr g" using st by simp
  qed
  have ns: "\<forall>n < e. \<not> sustained step thr ?c' f1 n"
  proof (intro allI impI notI)
    fix n assume n: "n < e" and sus: "sustained step thr ?c' f1 n"
    have "sustained step thr c f (Suc n)"
      by (rule sustained_shift [of step f f1 thr c n, OF st sus])
    moreover have "Suc n < Suc e" using n by simp
    ultimately have "sustained step thr c f (Suc n)" "Suc n < Suc e" by simp_all
    with Suc.prems(2) show False by blast
  qed
  from Suc.IH [OF it ns] st small show ?case by (simp add: Let_def)
qed

lemma sustained_0:
  "sustained step thr 0 f n \<longleftrightarrow>
     9 \<le> n \<and> (\<forall>j. n - 9 \<le> j \<and> j \<le> n \<longrightarrow> criterion_held step thr f j)"
  unfolding sustained_def by (rule iffI) (auto, (metis add.commute less_diff_conv2 not_less)?)


text \<open>
  Claim C4. Without a caller's guess, \<^verbatim>\<open>_find_F\<close> starts from zeros. If it returns a
  value, that is \<^verbatim>\<open>f_new\<close> of an evaluation \<open>n\<close> (at most the 1000th) such that the ten
  evaluations up to \<open>n\<close> all passed the test of the squared difference divided by the
  sum of \<^verbatim>\<open>f_new\<close> against 1e-4. If 1000 evaluations run and no ten in a row pass the
  test, it raises \<^verbatim>\<open>RuntimeError\<close>, and returns nothing.
\<close>

theorem find_F_convergence:
  assumes "Y self = Some Ys"
    and "step = find_F_step (Inr (map snd Ys)) (make_K ext (kern self) hs) (length Ys)"
    and "f0 = replicate (length Ys) 0"
  shows "(u_find_F ext self hs None (1 / 10000) 1000 = Inr f_hat \<longrightarrow>
            (\<exists>n. 9 \<le> n \<and> n < 1000 \<and> iterates step (Suc n) f0 = Inr (map snd f_hat) \<and>
               (\<forall>j. n - 9 \<le> j \<and> j \<le> n \<longrightarrow> criterion_held step (1 / 10000) f0 j))) \<and>
         ((\<forall>n < 1000. \<exists>f. iterates step (Suc n) f0 = Inr f) \<and>
          (\<forall>n. 9 \<le> n \<and> n < 1000 \<longrightarrow>
             (\<exists>j. n - 9 \<le> j \<and> j \<le> n \<and> \<not> criterion_held step (1 / 10000) f0 j))
            \<longrightarrow> u_find_F ext self hs None (1 / 10000) 1000 = Inl RuntimeError)"
proof (intro conjI impI)
  assume ret: "u_find_F ext self hs None (1 / 10000) 1000 = Inr f_hat"
  then obtain f_new where loop: "find_F_loop step (1 / 10000) 1000 f0 0 = Inr f_new"
    and idx: "ebind (attr (X_seqs self))
                (\<lambda>X. if length X = length f_new then Inr (zip (map fst X) f_new)
                      else Inl ValueError) = Inr f_hat"
    using assms by (cases "find_F_loop step (1 / 10000) 1000 f0 0")
      (simp_all add: u_find_F_def Let_def)
  from idx have "map snd f_hat = f_new"
    by (cases "X_seqs self") (auto split: if_splits)
  moreover from find_F_loop_returns [OF loop] obtain n where "n < 1000"
    "iterates step (Suc n) f0 = Inr f_new" "sustained step (1 / 10000) 0 f0 n" by blast
  ultimately show "\<exists>n. 9 \<le> n \<and> n < 1000 \<and> iterates step (Suc n) f0 = Inr (map snd f_hat) \<and>
      (\<forall>j. n - 9 \<le> j \<and> j \<le> n \<longrightarrow> criterion_held step (1 / 10000) f0 j)"
    unfolding sustained_0 by blast
next
  assume h: "(\<forall>n < 1000. \<exists>f. iterates step (Suc n) f0 = Inr f) \<and>
    (\<forall>n. 9 \<le> n \<and> n < 1000 \<longrightarrow>
       (\<exists>j. n - 9 \<le> j \<and> j \<le> n \<and> \<not> criterion_held step (1 / 10000) f0 j))"
  then have "\<forall>n < 1000. \<not> sustained step (1 / 10000) 0 f0 n"
    unfolding sustained_0 by blast
  with h have "find_F_loop step (1 / 10000) 1000 f0 0 = Inl RuntimeError"
    by (intro find_F_loop_gives_up) simp_all
  then show "u_find_F ext self hs None (1 / 10000) 1000 = Inl RuntimeError"
    using assms by (simp add: u_find_F_def Let_def)
qed

lemma iterates_fixed: "step f = Inr f \<Longrightarrow> iterates step n f = Inr f"
  by (induction n) simp_all

lemma step_zero_kernel: "find_F_step (Inr [1]) [[0]] 1 [0] = Inr [0]"
  by (simp add: find_F_step_def newton_a_def u_hess_def u_logistic_likelihood_def py_int_def
      diag_mat_def sqrtm_def np_dot_mm_def mat_mul_def transpose_mat_def mat_add_def
      scaled_identity_def cholesky_def is_square_def pad_def np_dot_mv_def mat_vec_def
      u_grad_log_logistic_likelihood_def vec_sub_def vec_add_def diag_of_def lstsq_def
      lower_triangular_def real_sqrt_divide)


lemma find_F_loop_converges:
  assumes "\<forall>j < evals. criterion_held step thr f j" and "10 \<le> c + evals" and "c < 10"
  shows "\<exists>f'. find_F_loop step thr evals f c = Inr f'"
  using assms
proof (induction evals arbitrary: f c)
  case 0
  then show ?case by simp
next
  case (Suc e)
  from Suc.prems(1) have h0: "criterion_held step thr f 0" by blast
  then obtain f1 where st: "step f = Inr f1" and b: "below_threshold thr f f1"
    by (cases "step f") (simp_all add: criterion_held_def)
  show ?case
  proof (cases "c + 1 > 9")
    case True
    with st b show ?thesis by (simp add: Let_def)
  next
    case False
    have "\<forall>j < e. criterion_held step thr f1 j"
      using Suc.prems(1) st by (auto simp: criterion_held_Suc [symmetric])
    moreover have "10 \<le> (c + 1) + e" using Suc.prems(2) by simp
    moreover have "c + 1 < 10" using False by simp
    ultimately obtain f' where f': "find_F_loop step thr e f1 (c + 1) = Inr f'"
      using Suc.IH by blast
    have "find_F_loop step thr (Suc e) f c = find_F_loop step thr e f1 (c + 1)"
      using st b False by (simp add: Let_def)
    with f' show ?thesis by simp
  qed
qed

lemma step_one_point:
  assumes "x \<le> 0"
  shows "\<exists>x'. find_F_step (Inr [- 1]) [[1]] 1 [x] = Inr [x'] \<and> x' < 0"
proof -
  define p where "p = 1 / (1 + exp (- x))"
  define w where "w = p * (1 - p)"
  have p: "0 < p" "p < 1" by (simp_all add: p_def add_pos_pos)
  then have w: "0 < w" by (simp add: w_def)
  have hess: "u_hess [x] = Inr [[w]]"
    by (simp add: u_hess_def u_logistic_likelihood_def py_int_def diag_mat_def w_def p_def)
  have grad: "u_grad_log_logistic_likelihood [- 1] [x] = Inr [[- p]]"
    by (simp add: u_grad_log_logistic_likelihood_def u_logistic_likelihood_def py_int_def
        vec_sub_def diag_mat_def p_def)
  have sq: "sqrt w * sqrt w = w" using w by simp
  have aw: "\<bar>w\<bar> = w" using w by simp
  have pos: "0 < 1 + w" using w by simp
  have chol: "cholesky [[1 + w]] = Inr [[sqrt (1 + w)]]"
    using pos by (simp add: cholesky_def is_square_def pad_def)
  have ne: "sqrt (1 + w) \<noteq> 0" using pos by simp
  have step: "find_F_step (Inr [- 1]) [[1]] 1 [x]
      = Inr [w * x - p - sqrt w * (sqrt w * (w * x - p) / sqrt (1 + w) / sqrt (1 + w))]"
    by (simp add: find_F_step_def newton_a_def hess grad sqrtm_def np_dot_mm_def mat_mul_def
        transpose_mat_def mat_add_def scaled_identity_def diag_mat_def sq aw chol np_dot_mv_def
        mat_vec_def vec_add_def vec_sub_def diag_of_def lstsq_def lower_triangular_def)
  have "sqrt w * (sqrt w * (w * x - p) / sqrt (1 + w) / sqrt (1 + w))
      = w * (w * x - p) / (1 + w)"
  proof -
    have "sqrt (1 + w) * sqrt (1 + w) = 1 + w" using pos by simp
    then have "sqrt w * (sqrt w * (w * x - p) / sqrt (1 + w) / sqrt (1 + w))
       = (sqrt w * sqrt w) * (w * x - p) / (1 + w)"
      by (simp add: divide_divide_eq_left)
    then show ?thesis unfolding sq .
  qed
  then have val: "w * x - p - sqrt w * (sqrt w * (w * x - p) / sqrt (1 + w) / sqrt (1 + w))
      = (w * x - p) / (1 + w)"
    using pos by (simp add: field_simps)
  have "w * x \<le> 0" using w assms by (simp add: mult_nonneg_nonpos)
  then have "w * x - p < 0" using p by simp
  then have "(w * x - p) / (1 + w) < 0" using pos by (simp add: divide_neg_pos)
  with step val show ?thesis by simp
qed

lemma below_negative: "x' < 0 \<Longrightarrow> 0 < thr \<Longrightarrow> below_threshold thr [x] [x']"
proof -
  assume a: "x' < 0" "0 < thr"
  have "(x - x')\<^sup>2 / x' \<le> 0" using a by (simp add: divide_nonneg_neg)
  with a show ?thesis by (simp add: below_threshold_def)
qed

lemma iterates_one_point:
  assumes "x \<le> 0"
  shows "\<exists>y \<le> 0. iterates (find_F_step (Inr [- 1]) [[1]] 1) n [x] = Inr [y]"
  using assms
proof (induction n arbitrary: x)
  case 0
  then show ?case by simp
next
  case (Suc n)
  from step_one_point [OF Suc.prems] obtain x' where
    x': "find_F_step (Inr [- 1]) [[1]] 1 [x] = Inr [x']" "x' < 0" by blast
  then have "x' \<le> 0" by simp
  from Suc.IH [OF this] x'(1) show ?case by simp
qed

lemma criterion_one_point:
  "criterion_held (find_F_step (Inr [- 1]) [[1]] 1) (1 / 10000) [0] j"
proof -
  obtain y where y: "y \<le> 0" "iterates (find_F_step (Inr [- 1]) [[1]] 1) j [0] = Inr [y]"
    using iterates_one_point [of 0 j] by auto
  from step_one_point [OF y(1)] obtain y' where
    "find_F_step (Inr [- 1]) [[1]] 1 [y] = Inr [y']" "y' < 0" by blast
  with y(2) show ?thesis by (simp add: criterion_held_def below_negative)
qed


lemma find_F_one_point:
  "\<exists>f_hat. u_find_F example_ext class_example_neg [1] None (1 / 10000) 1000 = Inr f_hat"
proof -
  obtain f' where "find_F_loop (find_F_step (Inr [- 1]) [[1]] 1) (1 / 10000) 1000 [0] 0 = Inr f'"
    using find_F_loop_converges [of 1000 "find_F_step (Inr [- 1]) [[1]] 1" "1 / 10000" "[0]" 0]
      criterion_one_point by auto
  moreover from find_F_loop_returns [OF this] obtain n where
    "iterates (find_F_step (Inr [- 1]) [[1]] 1) (Suc n) [0] = Inr f'" by blast
  then have "length f' = 1" using iterates_one_point [of 0 "Suc n"] by auto
  ultimately show ?thesis
    by (simp add: u_find_F_def class_example_neg_def new_model_def example_ext_def hamming_def)
qed

theorem find_F_convergence_witness:
  "(\<exists>f_hat n. u_find_F example_ext class_example_neg [1] None (1 / 10000) 1000 = Inr f_hat \<and>
      9 \<le> n \<and> n < 1000 \<and>
      iterates (find_F_step (Inr [- 1]) [[1]] 1) (Suc n) [0] = Inr (map snd f_hat) \<and>
      (\<forall>j. n - 9 \<le> j \<and> j \<le> n \<longrightarrow>
         criterion_held (find_F_step (Inr [- 1]) [[1]] 1) (1 / 10000) [0] j)) \<and>
   u_find_F example_ext class_example [0] None (1 / 10000) 1000 = Inl RuntimeError"
proof -
  let ?step0 = "find_F_step (Inr [1]) [[0]] 1"
  let ?step1 = "find_F_step (Inr [- 1]) [[1]] 1"
  have it: "iterates ?step0 j [0] = Inr [0]" for j
    by (rule iterates_fixed [of ?step0 "[0]", OF step_zero_kernel])
  have never: "\<not> criterion_held ?step0 (1 / 10000) [0] j" for j
    by (simp only: criterion_held_def it sum.case step_zero_kernel)
       (simp add: below_threshold_def)
  have Y0: "Y class_example = Some [(''A'', 1)]"
    by (simp add: class_example_def)
  have st0: "?step0 = find_F_step (Inr (map snd [(''A'', 1::real)]))
      (make_K example_ext (kern class_example) [0]) (length [(''A'', 1::real)])"
    by (simp add: class_example_def new_model_def example_ext_def hamming_def)
  have f0: "[0] = replicate (length [(''A'', 1::real)]) (0::real)" by simp
  have all: "\<forall>n < 1000. \<exists>f. iterates ?step0 (Suc n) [0] = Inr f"
    using it by blast
  have nv: "\<forall>n. 9 \<le> n \<and> n < 1000 \<longrightarrow>
      (\<exists>j. n - 9 \<le> j \<and> j \<le> n \<and> \<not> criterion_held ?step0 (1 / 10000) [0] j)"
    using never by (metis diff_le_self le_refl)
  have fail: "u_find_F example_ext class_example [0] None (1 / 10000) 1000 = Inl RuntimeError"
    using find_F_convergence [OF Y0 st0 f0, of "[]"] all nv by blast
  obtain f_hat where
    f: "u_find_F example_ext class_example_neg [1] None (1 / 10000) 1000 = Inr f_hat"
    using find_F_one_point by blast
  have Y1: "Y class_example_neg = Some [(''A'', - 1)]"
    by (simp add: class_example_neg_def)
  have st1: "?step1 = find_F_step (Inr (map snd [(''A'', - 1::real)]))
      (make_K example_ext (kern class_example_neg) [1]) (length [(''A'', - 1::real)])"
    by (simp add: class_example_neg_def new_model_def example_ext_def hamming_def)
  have f1: "[0] = replicate (length [(''A'', - 1::real)]) (0::real)" by simp
  have "\<exists>n. 9 \<le> n \<and> n < 1000 \<and> iterates ?step1 (Suc n) [0] = Inr (map snd f_hat) \<and>
      (\<forall>j. n - 9 \<le> j \<and> j \<le> n \<longrightarrow> criterion_held ?step1 (1 / 10000) [0] j)"
    using find_F_convergence [OF Y1 st1 f1, of f_hat] f by blast
  with f fail show ?thesis by blast
qed

subsection \<open>Posterior weights\<close>

lemma dot_sum:
  "length xs = n \<Longrightarrow> length ys = n \<Longrightarrow> dot xs ys = (\<Sum>i<n. xs ! i * ys ! i)"
proof (induction xs arbitrary: ys n)
  case Nil
  then show ?case by simp
next
  case (Cons x xs)
  then obtain y ys' m where ys: "ys = y # ys'" and n: "n = Suc m"
    by (cases ys; cases n) auto
  with Cons.prems have "dot xs ys' = (\<Sum>i<m. xs ! i * ys' ! i)"
    by (intro Cons.IH) simp_all
  then show ?case using ys n by (simp add: sum.lessThan_Suc_shift del: sum.lessThan_Suc)
qed

lemma transpose_mat_nth:
  assumes "is_square A" and "i < length A" and "j < length A"
  shows "transpose_mat A ! i ! j = A ! j ! i"
proof -
  from assms obtain r rs where A: "A = r # rs" by (cases A) auto
  with assms have len: "length r = length A" by (simp add: is_square_def)
  have "transpose_mat A = map (\<lambda>j. map (\<lambda>row. row ! j) A) [0..<length A]"
    unfolding transpose_mat_def len [symmetric] by (simp add: A)
  then have "transpose_mat A ! i = map (\<lambda>row. row ! i) A" using assms(2) by simp
  then show ?thesis using assms(3) by simp
qed

lemma transpose_mat_square:
  assumes "is_square A"
  shows "is_square (transpose_mat A)" and "length (transpose_mat A) = length A"
proof -
  show len: "length (transpose_mat A) = length A"
  proof (cases A)
    case Nil
    then show ?thesis by (simp add: transpose_mat_def)
  next
    case (Cons r rs)
    with assms have "length r = length A" by (simp add: is_square_def)
    with Cons show ?thesis by (simp add: transpose_mat_def)
  qed
  show "is_square (transpose_mat A)"
  proof (cases A)
    case Nil
    then show ?thesis by (simp add: transpose_mat_def is_square_def)
  next
    case (Cons r rs)
    then show ?thesis using len
      by (simp add: transpose_mat_def is_square_def list_all_iff del: upt_Suc)
  qed
qed

text \<open>The two triangular solves invert the product of the factor with its transpose.\<close>

lemma solve_alpha_solves:
  assumes ch: "cholesky Ky = Inr L"
    and sym: "transpose_mat Ky = Ky"
    and sa: "solve_alpha L ys = Inr alpha"
  shows "mat_vec Ky alpha = ys"
proof -
  let ?n = "length Ky"
  note cf = cholesky_factor [OF ch]
  have lenL: "length L = ?n" and sqL: "is_square L" and ltL: "lower_triangular L" by (rule cf)+
  have diag: "\<forall>i < length L. L ! i ! i \<noteq> 0" by (rule cholesky_diag_nonzero [OF ch])
  have sqK: "is_square Ky" using ch by (auto simp: cholesky_def split: if_splits)
  from sa obtain z where z: "lstsq L ys = Inr z" and a: "lstsq (transpose_mat L) z = Inr alpha"
    by (cases "lstsq L ys") (simp_all add: solve_alpha_def)
  from z have leny: "length ys = length L" by (auto simp: lstsq_def split: if_splits)
  from lstsq_lower [OF sqL ltL diag leny] z have Lz: "mat_vec L z = ys" and lenz: "length z = ?n"
    using lenL by auto
  let ?U = "transpose_mat L"
  have sqU: "is_square ?U" and lenU: "length ?U = length L"
    by (rule transpose_mat_square [OF sqL])+
  have Uij: "?U ! i ! j = L ! j ! i" if "i < ?n" "j < ?n" for i j
    using that lenL by (intro transpose_mat_nth [OF sqL]) simp_all
  have tri: "\<forall>i < length L. \<forall>j < length L. i < j \<longrightarrow> L ! i ! j = 0"
    using ltL sqL by (simp add: lower_triangular_def lower_triangular_from_nth is_square_nth)
  have ut: "\<forall>i < length ?U. \<forall>j < i. ?U ! i ! j = 0"
    using tri Uij lenU lenL by simp
  have dU: "\<forall>i < length ?U. ?U ! i ! i \<noteq> 0"
    using diag Uij lenU lenL by simp
  have "length z = length ?U" using lenz lenU lenL by simp
  from lstsq_upper [OF sqU ut dU this] a have Ua: "mat_vec ?U alpha = z"
    and lena: "length alpha = ?n" using lenU lenL by auto
  have Kij: "Ky ! i ! j = dot (L ! i) (L ! j)" if "i < ?n" "j < ?n" for i j
  proof (cases "j \<le> i")
    case True
    with cf(5) that show ?thesis by simp
  next
    case False
    then have "i \<le> j" by simp
    with cf(5) that have "dot (L ! j) (L ! i) = Ky ! j ! i" by simp
    moreover have "Ky ! j ! i = Ky ! i ! j"
      using transpose_mat_nth [OF sqK that] sym by simp
    ultimately show ?thesis by (simp add: dot_commute)
  qed
  have rowL: "length (L ! i) = ?n" if "i < ?n" for i
    using that sqL lenL by (simp add: is_square_nth)
  have rowK: "length (Ky ! i) = ?n" if "i < ?n" for i
    using that sqK by (simp add: is_square_nth)
  have rowU: "length (?U ! i) = ?n" if "i < ?n" for i
    using that sqU lenU lenL by (simp add: is_square_nth)
  show ?thesis
  proof (rule nth_equalityI)
    show "length (mat_vec Ky alpha) = length ys" using leny lenL by (simp add: mat_vec_def)
  next
    fix i assume "i < length (mat_vec Ky alpha)"
    then have i: "i < ?n" by (simp add: mat_vec_def)
    have "dot (Ky ! i) alpha = (\<Sum>j<?n. Ky ! i ! j * alpha ! j)"
      using rowK [OF i] lena by (rule dot_sum)
    also have "\<dots> = (\<Sum>j<?n. (\<Sum>k<?n. L ! i ! k * L ! j ! k) * alpha ! j)"
      using i by (intro sum.cong refl) (simp add: Kij dot_sum [OF rowL rowL])
    also have "\<dots> = (\<Sum>j<?n. \<Sum>k<?n. L ! i ! k * (L ! j ! k * alpha ! j))"
      by (simp add: sum_distrib_right mult.assoc)
    also have "\<dots> = (\<Sum>k<?n. \<Sum>j<?n. L ! i ! k * (L ! j ! k * alpha ! j))"
      by (rule sum.swap)
    also have "\<dots> = (\<Sum>k<?n. L ! i ! k * (\<Sum>j<?n. ?U ! k ! j * alpha ! j))"
      by (intro sum.cong refl) (simp add: sum_distrib_left Uij)
    also have "\<dots> = (\<Sum>k<?n. L ! i ! k * dot (?U ! k) alpha)"
      by (intro sum.cong refl) (simp add: dot_sum [OF rowU lena])
    also have "\<dots> = (\<Sum>k<?n. L ! i ! k * z ! k)"
      using Ua lenU lenL by (intro sum.cong refl) (auto simp: mat_vec_def dest: arg_cong [where f = "\<lambda>v. v ! k" for k])
    also have "\<dots> = dot (L ! i) z" using rowL [OF i] lenz by (rule dot_sum [symmetric])
    also have "\<dots> = ys ! i" using Lz i lenL by (auto simp: mat_vec_def)
    finally show "mat_vec Ky alpha ! i = ys ! i" using i by (simp add: mat_vec_def)
  qed
qed


lemma set_hypers_regression:
  assumes r: "regr self = Some True"
    and acc: "u_set_hypers ext self hs = (None, self')"
  shows "\<exists>K Ky L nY alpha.
           u_make_Ks ext self hs = Inr (K, Ky) \<and> cholesky Ky = Inr L \<and>
           normed_Y self = Some nY \<and> solve_alpha L (map snd nY) = Inr alpha \<and>
           u_K self' = Some K \<and> u_Ky self' = Some Ky \<and> u_L self' = Some L \<and>
           u_alpha self' = Some alpha \<and> normed_Y self' = Some nY \<and> regr self' = Some True"
proof -
  let ?names = "if variances self = None then ''var_n'' # kern_hypers ext (kern self)
                else kern_hypers ext (kern self)"
  from acc r obtain h where h: "namedtuple_make ?names hs = Inr h"
    by (cases "namedtuple_make ?names hs") (simp_all add: u_set_hypers_def)
  let ?s1 = "self\<lparr>hypers := Some h\<rparr>"
  have mk: "u_make_Ks ext ?s1 hs = u_make_Ks ext self hs"
    by (simp add: u_make_Ks_def cong: option.case_cong)
  from acc r h obtain K Ky where KK: "u_make_Ks ext self hs = Inr (K, Ky)"
    by (cases "u_make_Ks ext self hs") (auto simp: u_set_hypers_def mk)
  from acc r h KK obtain L where L: "cholesky Ky = Inr L"
    by (cases "cholesky Ky") (simp_all add: u_set_hypers_def mk)
  from acc r h KK L obtain nY where nY: "normed_Y self = Some nY"
    by (cases "normed_Y self") (simp_all add: u_set_hypers_def mk)
  from acc r h KK L nY obtain alpha where al: "solve_alpha L (map snd nY) = Inr alpha"
    by (cases "solve_alpha L (map snd nY)") (simp_all add: u_set_hypers_def mk)
  let ?s2 = "self\<lparr>hypers := Some h, u_K := Some K, u_Ky := Some Ky, u_L := Some L,
                    u_alpha := Some alpha\<rparr>"
  from acc r h KK L nY al obtain ml where ml: "u_log_ML ext ?s2 (map snd h) = Inr ml"
    by (cases "u_log_ML ext ?s2 (map snd h)") (simp_all add: u_set_hypers_def mk)
  from acc r h KK L nY al ml obtain lp where
    "u_LOO_log_p ext (?s2\<lparr>attr_ML := Some ml\<rparr>) (map snd h) = Inr lp"
    by (cases "u_LOO_log_p ext (?s2\<lparr>attr_ML := Some ml\<rparr>) (map snd h)")
       (simp_all add: u_set_hypers_def mk)
  with acc r h KK L nY al ml have "self' = ?s2\<lparr>attr_ML := Some ml, log_p := Some lp\<rparr>"
    by (simp add: u_set_hypers_def mk)
  with KK L nY al r show ?thesis by simp
qed

text \<open>
  Claim C2. When \<^verbatim>\<open>_set_hypers\<close> has accepted hyperparameters for a regression model
  (it returned, so the Cholesky factorisation of the noisy covariance \<open>Ky\<close> succeeded) and
  \<open>Ky\<close> is symmetric, the stored \<^verbatim>\<open>_alpha\<close> is the result of the two triangular solves
  against the stored factor \<open>L\<close> and its transpose, and \<open>Ky \<cdot> alpha\<close> is the vector of
  normalised outputs.
\<close>

theorem alpha_solves_Ky:
  assumes "regr self = Some True"
    and "u_set_hypers ext self hs = (None, self')"
    and "\<forall>Ky. u_Ky self' = Some Ky \<longrightarrow> transpose_mat Ky = Ky"
  shows "\<exists>Ky L alpha nY.
           u_Ky self' = Some Ky \<and> u_L self' = Some L \<and> cholesky Ky = Inr L \<and>
           u_alpha self' = Some alpha \<and> normed_Y self' = Some nY \<and>
           solve_alpha L (map snd nY) = Inr alpha \<and>
           mat_vec Ky alpha = map snd nY"
proof -
  from set_hypers_regression [OF assms(1,2)] obtain K Ky L nY alpha where
    f: "cholesky Ky = Inr L" "solve_alpha L (map snd nY) = Inr alpha"
       "u_Ky self' = Some Ky" "u_L self' = Some L" "u_alpha self' = Some alpha"
       "normed_Y self' = Some nY"
    by blast
  with assms(3) have "transpose_mat Ky = Ky" by simp
  from solve_alpha_solves [OF f(1) this f(2)] f show ?thesis by blast
qed


lemma fitted_example_alt:
  "fitted_example = unfitted_example
     \<lparr>hypers := Some [(''var_p'', 1)],
      u_K := Some [[2, 2], [2, 2]], u_Ky := Some [[4, 2], [2, 5]],
      u_L := Some [[2, 0], [1, 2]], u_alpha := Some [1 / 2, 0]\<rparr>"
  by (simp add: fitted_example_def unfitted_example_def new_model_def)

lemma make_Ks_example:
  "u_make_Ks example_ext unfitted_example [1] = Inr ([[2, 2], [2, 2]], [[4, 2], [2, 5]])"
  by (simp add: u_make_Ks_def unfitted_example_def new_model_def example_ext_def hamming_def
      mat_add_def diag_mat_def)

lemma solve_alpha_example: "solve_alpha [[2, 0], [1, 2]] [2, 1] = Inr [1 / 2, 0]"
  by (simp add: solve_alpha_def lstsq_def lower_triangular_def transpose_mat_def)

lemma make_Ks_cong:
  "kern m = kern m' \<Longrightarrow> variances m = variances m' \<Longrightarrow>
     u_make_Ks ext m hs = u_make_Ks ext m' hs"
  by (simp add: u_make_Ks_def cong: option.case_cong)

lemma log_ML_example: "\<exists>ml. u_log_ML example_ext fitted_example [1] = Inr ml"
proof -
  have "u_make_Ks example_ext fitted_example [1] = Inr ([[2, 2], [2, 2]], [[4, 2], [2, 5]])"
    using make_Ks_cong [of fitted_example unfitted_example example_ext "[1]"]
    by (simp add: make_Ks_example fitted_example_alt)
  then show ?thesis
    by (simp add: u_log_ML_def cholesky_example solve_alpha_example np_dot_def
        fitted_example_def)
qed

lemma example_ext_inv: "linalg_inv example_ext = inv_small"
  by (simp add: example_ext_def)

lemma unfitted_example_normed_Y: "normed_Y unfitted_example = Some [(''A'', 2), (''B'', 1)]"
  by (simp add: unfitted_example_def)

lemma inv_example:
  "inv_small [[4, 2], [2, 5]] = Inr [[5 / 16, - (1 / 8)], [- (1 / 8), 1 / 4]]"
  by (simp add: inv_small_def)

lemma LOO_res_example:
  "LOO_res example_ext unfitted_example [1] False False
     = Inr [(''A'', 2 / 5, 16 / 5), (''B'', 1, 4)]"
  by (simp add: LOO_res_def make_Ks_example example_ext_inv inv_example
      unfitted_example_normed_Y np_dot_mv_def mat_vec_def diag_of_def)


lemma LOO_res_cong:
  assumes "kern m = kern m'" and "variances m = variances m'" and "normed_Y m = normed_Y m'"
  shows "LOO_res ext m hs False False = LOO_res ext m' hs False False"
  using assms make_Ks_cong [OF assms(1,2), of ext hs]
  by (simp add: LOO_res_def Let_def cong: if_cong)

lemma set_hypers_example:
  "\<exists>ml lp. u_set_hypers example_ext unfitted_example [1]
     = (None, fitted_example\<lparr>attr_ML := Some ml, log_p := Some lp\<rparr>)"
proof -
  obtain ml where ml: "u_log_ML example_ext fitted_example [1] = Inr ml"
    using log_ML_example by blast
  have "LOO_res example_ext (fitted_example\<lparr>attr_ML := Some ml\<rparr>) [1] False False
      = LOO_res example_ext unfitted_example [1] False False"
    by (rule LOO_res_cong) (simp_all add: fitted_example_alt)
  then obtain lp where
    lp: "u_LOO_log_p example_ext (fitted_example\<lparr>attr_ML := Some ml\<rparr>) [1] = Inr lp"
    by (simp add: u_LOO_log_p_def LOO_res_example fitted_example_def)
  have mk: "u_make_Ks example_ext (unfitted_example\<lparr>hypers := Some [(''var_p'', 1)]\<rparr>) [1]
      = Inr ([[2, 2], [2, 2]], [[4, 2], [2, 5]])"
    using make_Ks_cong [of "unfitted_example\<lparr>hypers := Some [(''var_p'', 1)]\<rparr>"
        unfitted_example example_ext "[1]"]
    by (simp add: make_Ks_example)
  have f1: "regr unfitted_example = Some True" "variances unfitted_example \<noteq> None"
    "kern_hypers example_ext (kern unfitted_example) = [''var_p'']"
    by (simp_all add: unfitted_example_def example_ext_def)
  have "u_set_hypers example_ext unfitted_example [1]
      = (None, fitted_example\<lparr>attr_ML := Some ml, log_p := Some lp\<rparr>)"
    using ml lp
    by (simp add: u_set_hypers_def f1 namedtuple_make_def mk cholesky_example
        unfitted_example_normed_Y solve_alpha_example fitted_example_alt)
  then show ?thesis by blast
qed

theorem alpha_solves_Ky_witness:
  "\<exists>self'. u_set_hypers example_ext unfitted_example [1] = (None, self') \<and>
      u_Ky self' = Some [[4, 2], [2, 5]] \<and> u_alpha self' = Some [1 / 2, 0] \<and>
      mat_vec [[4, 2], [2, 5]] [1 / 2, 0] = [2, 1]"
proof -
  from set_hypers_example obtain ml lp where
    acc: "u_set_hypers example_ext unfitted_example [1]
       = (None, fitted_example\<lparr>attr_ML := Some ml, log_p := Some lp\<rparr>)"
    by blast
  have r: "regr unfitted_example = Some True" by (simp add: unfitted_example_def)
  have sym: "\<forall>Ky. u_Ky (fitted_example\<lparr>attr_ML := Some ml, log_p := Some lp\<rparr>) = Some Ky
      \<longrightarrow> transpose_mat Ky = Ky"
    by (simp add: fitted_example_def transpose_mat_def)
  from alpha_solves_Ky [OF r acc sym] acc show ?thesis
    by (auto simp add: fitted_example_def)
qed


subsection \<open>Leave-one-out predictions\<close>





end
